theory Spec2Isabelle
  imports Complex_Main "HOL-Library.Monad_Syntax" "HOL-Library.AList" "HOL-Library.Word"
begin

section \<open>The svZeroDPlus calibrator (applications/calibrator.cpp)\<close>

text \<open>
  The calibrator is one function, \<^verbatim>\<open>main\<close>. It is embedded phase by phase, in the
  order of the source: the options, the vessel loop, the junction loop, the
  connections, the observations, the initial parameter vector, the Gauss-Newton
  loop and the output document. An exception, an access outside a container and
  an overflow of \<^verbatim>\<open>int\<close> are the result \<open>None\<close>: the run gives no document.

  The scalar type \<^verbatim>\<open>T\<close> is \<^verbatim>\<open>double\<close>. The phases embedded here store, copy and emit
  such values and write the literal \<^verbatim>\<open>0.0\<close>; they are carried as \<open>real\<close>. The
  arithmetic on them (Eigen's products and inverse, the norm and its comparison) is
  IEEE arithmetic of a library and enters as parameters of the Gauss-Newton loop.
\<close>

subsection \<open>Configuration documents\<close>

datatype json =
    JNull
  | JBool bool
  | JInt int
  | JFloat real
  | JString string
  | JArray "json list"
  | JObject "(string \<times> json) list"

text \<open>Member lookup; only an object has members.\<close>

fun obj_find :: "json \<Rightarrow> string \<Rightarrow> json option" where
  "obj_find (JObject kvs) k = map_of kvs k"
| "obj_find _ k = None"

text \<open>\<^verbatim>\<open>j[key] = v\<close> on an object: the member is replaced or added.\<close>

fun obj_set :: "json \<Rightarrow> string \<Rightarrow> json \<Rightarrow> json option" where
  "obj_set (JObject kvs) k v = Some (JObject (AList.update k v kvs))"
| "obj_set JNull k v = Some (JObject [(k, v)])"
| "obj_set _ k v = None"

text \<open>\<^verbatim>\<open>j.erase(key)\<close>: defined on objects only.\<close>

fun obj_erase :: "json \<Rightarrow> string \<Rightarrow> json option" where
  "obj_erase (JObject kvs) k = Some (JObject (AList.delete k kvs))"
| "obj_erase _ k = None"

fun as_array :: "json \<Rightarrow> json list option" where
  "as_array (JArray xs) = Some xs"
| "as_array _ = None"

fun as_string :: "json \<Rightarrow> string option" where
  "as_string (JString s) = Some s"
| "as_string _ = None"

fun as_int :: "json \<Rightarrow> int option" where
  "as_int (JInt i) = Some i"
| "as_int _ = None"

fun as_bool :: "json \<Rightarrow> bool option" where
  "as_bool (JBool b) = Some b"
| "as_bool _ = None"

fun as_double :: "json \<Rightarrow> real option" where
  "as_double (JInt i) = Some (of_int i)"
| "as_double (JFloat r) = Some r"
| "as_double _ = None"

subsection \<open>Loops over containers\<close>

text \<open>A loop that builds one result per element and stops at the first failure.\<close>

fun mapM :: "('a \<Rightarrow> 'b option) \<Rightarrow> 'a list \<Rightarrow> 'b list option" where
  "mapM f [] = Some []"
| "mapM f (x # xs) = do { y \<leftarrow> f x; ys \<leftarrow> mapM f xs; Some (y # ys) }"

text \<open>A loop that threads a state through the elements and stops at the first failure.\<close>

fun foldM :: "('a \<Rightarrow> 's \<Rightarrow> 's option) \<Rightarrow> 'a list \<Rightarrow> 's \<Rightarrow> 's option" where
  "foldM f [] s = Some s"
| "foldM f (x # xs) s = do { s' \<leftarrow> f x s; foldM f xs s' }"

text \<open>\<^verbatim>\<open>v[i]\<close> on a \<^verbatim>\<open>std::vector\<close> or an Eigen vector: outside the container there is no value.\<close>

definition vec_at :: "'a list \<Rightarrow> nat \<Rightarrow> 'a option" where
  "vec_at xs i = (if i < length xs then Some (xs ! i) else None)"

text \<open>\<^verbatim>\<open>v[i] = x\<close>, likewise.\<close>

definition vec_put :: "'a list \<Rightarrow> nat \<Rightarrow> 'a \<Rightarrow> 'a list option" where
  "vec_put xs i x = (if i < length xs then Some (xs[i := x]) else None)"

subsection \<open>The configuration reader\<close>

text \<open>
  Modelled from the spec: \<^verbatim>\<open>IO::JsonHandler\<close> (io/jsonhandler.hpp is not part of the
  sources). The reader hands out the members of the topology document by key and
  type; a missing member or one of another type aborts the run.
\<close>

definition has_key :: "json \<Rightarrow> string \<Rightarrow> bool" where
  "has_key h k = (obj_find h k \<noteq> None)"

definition get_string :: "json \<Rightarrow> string \<Rightarrow> string option" where
  "get_string h k = obj_find h k \<bind> as_string"

definition get_int :: "json \<Rightarrow> string \<Rightarrow> int option" where
  "get_int h k = obj_find h k \<bind> as_int"

definition get_bool :: "json \<Rightarrow> string \<Rightarrow> bool option" where
  "get_bool h k = obj_find h k \<bind> as_bool"

definition get_int_array :: "json \<Rightarrow> string \<Rightarrow> int list option" where
  "get_int_array h k = obj_find h k \<bind> as_array \<bind> mapM as_int"

definition get_double_array :: "json \<Rightarrow> string \<Rightarrow> real list option" where
  "get_double_array h k = obj_find h k \<bind> as_array \<bind> mapM as_double"

subsection \<open>Blocks and the model graph\<close>

datatype BlockType = BLOODVESSEL | JUNCTION | BLOODVESSELJUNCTION

text \<open>
  The element type of \<^verbatim>\<open>global_eqn_ids\<close> is declared in model/block.hpp, which is not
  part of the sources; it is the type parameter \<open>'i\<close>, a machine word of some width
  wherever the calibrator computes with it.
\<close>

record 'i block =
  name :: string
  block_type :: BlockType
  global_param_ids :: "nat list"
  global_eqn_ids :: "'i list"
  inlet_nodes :: "string list"
  outlet_nodes :: "string list"

record 'i model =
  blocks :: "'i block list"
  nodes :: "string list"
  dofhandler_variables :: "string list"

definition empty_model :: "'i model" where
  "empty_model = \<lparr>blocks = [], nodes = [], dofhandler_variables = []\<rparr>"

text \<open>
  Modelled from the spec: \<^verbatim>\<open>Model::add_block\<close> (model/model.hpp is not part of the
  sources). It registers a new block of the given kind with the supplied
  parameter ids and a unique name, and fails if the name already exists.
\<close>

definition add_block :: "BlockType \<Rightarrow> nat list \<Rightarrow> string \<Rightarrow> 'i model \<Rightarrow> 'i model option" where
  "add_block kind param_ids nm m =
     (if nm \<in> set (map name (blocks m)) then None
      else Some (m\<lparr>blocks := blocks m @
        [\<lparr>name = nm, block_type = kind, global_param_ids = param_ids,
          global_eqn_ids = [], inlet_nodes = [], outlet_nodes = []\<rparr>]\<rparr>))"

text \<open>
  Modelled from the spec: \<^verbatim>\<open>Model::get_block\<close> by name. The source holds the block
  through a pointer; the model holds its position in the insertion order. The lookup
  fails if no block has the name.
\<close>

fun block_index :: "'i block list \<Rightarrow> string \<Rightarrow> nat option" where
  "block_index [] nm = None"
| "block_index (b # bs) nm = (if name b = nm then Some 0 else map_option Suc (block_index bs nm))"

definition get_block :: "'i model \<Rightarrow> string \<Rightarrow> 'i block option" where
  "get_block m nm = block_index (blocks m) nm \<bind> vec_at (blocks m)"

text \<open>
  Modelled from the spec: \<^verbatim>\<open>Model::add_node\<close>. It records a connection between the
  blocks on its inlet side and the blocks on its outlet side; either list may be
  empty, not both. The node is an outlet node of each block on its inlet side and
  an inlet node of each block on its outlet side.
\<close>

definition add_outlet_node :: "string \<Rightarrow> nat \<Rightarrow> 'i block list \<Rightarrow> 'i block list" where
  "add_outlet_node node j bs = bs[j := (bs ! j)\<lparr>outlet_nodes := outlet_nodes (bs ! j) @ [node]\<rparr>]"

definition add_inlet_node :: "string \<Rightarrow> nat \<Rightarrow> 'i block list \<Rightarrow> 'i block list" where
  "add_inlet_node node j bs = bs[j := (bs ! j)\<lparr>inlet_nodes := inlet_nodes (bs ! j) @ [node]\<rparr>]"

definition add_node :: "nat list \<Rightarrow> nat list \<Rightarrow> string \<Rightarrow> 'i model \<Rightarrow> 'i model option" where
  "add_node inlet_eles outlet_eles node m =
     (if inlet_eles = [] \<and> outlet_eles = [] then None
      else Some (m\<lparr>blocks := fold (add_inlet_node node) outlet_eles
                                (fold (add_outlet_node node) inlet_eles (blocks m)),
                    nodes := nodes m @ [node]\<rparr>))"

subsection \<open>Options and the number of parameters per vessel (lines 47-54)\<close>

text \<open>
  \<^verbatim>\<open>int num_params = 3; if (calibrate_stenosis){ int num_params = 4; }\<close>
  The declaration in the braces is a variable of the inner block; it goes out of
  scope at the closing brace, and the outer variable is the one read afterwards.
\<close>

definition num_params_of :: "bool \<Rightarrow> nat" where
  "num_params_of calibrate_stenosis =
     (let num_params = 3;
          inner_num_params = (if calibrate_stenosis then Some (4::nat) else None)
      in num_params)"

subsection \<open>The local variables of main during graph construction\<close>

text \<open>
  \<^verbatim>\<open>Eigen::SparseMatrix<T>\<close>: a shape and the stored coefficients. A matrix constructed
  from its shape alone stores none.
\<close>

record sparse_matrix =
  nrows :: nat
  ncols :: nat
  coeffs :: "nat \<times> nat \<rightharpoonup> real"

definition SparseMatrix :: "nat \<Rightarrow> nat \<Rightarrow> sparse_matrix" where
  "SparseMatrix r c = \<lparr>nrows = r, ncols = c, coeffs = Map.empty\<rparr>"

text \<open>
  The variables of \<^verbatim>\<open>main\<close> that change while it runs. Those of a later phase hold
  their initial value until the phase is reached.
\<close>

record 'i locals =
  model :: "'i model"
  param_counter :: nat
  vessel_id_map :: "(int \<times> string) list"
  connections :: "(string \<times> string) list"
  inlet_connections :: "(string \<times> string) list"
  outlet_connections :: "(string \<times> string) list"
  y_all :: "real list list"
  dy_all :: "real list list"
  num_observations :: nat
  num_dofs :: nat
  alpha :: "real list"
  jacobian :: sparse_matrix
  residual :: "real list"

definition initial_locals :: "'i locals" where
  "initial_locals = \<lparr>model = empty_model, param_counter = 0, vessel_id_map = [],
     connections = [], inlet_connections = [], outlet_connections = [],
     y_all = [], dy_all = [], num_observations = 0, num_dofs = 0, alpha = [],
     jacobian = SparseMatrix 0 0, residual = []\<rparr>"

text \<open>\<^verbatim>\<open>std::map::insert\<close> keeps the entry of a key that is already present.\<close>

definition map_insert :: "int \<Rightarrow> string \<Rightarrow> (int \<times> string) list \<Rightarrow> (int \<times> string) list" where
  "map_insert k v al = (case map_of al k of None \<Rightarrow> al @ [(k, v)] | Some _ \<Rightarrow> al)"

text \<open>
  \<^verbatim>\<open>vessel_id_map[id]\<close>: an absent key reads as the empty string (and is entered with
  it, which no later read can tell from its absence).
\<close>

definition map_index :: "(int \<times> string) list \<Rightarrow> int \<Rightarrow> string" where
  "map_index al k = (case map_of al k of None \<Rightarrow> [] | Some v \<Rightarrow> v)"

text \<open>\<^verbatim>\<open>for (k = 0; k < n; k++) param_ids.push_back(param_counter++)\<close>\<close>

fun push_param_ids :: "nat \<Rightarrow> nat list \<times> nat \<Rightarrow> nat list \<times> nat" where
  "push_param_ids 0 (param_ids, pc) = (param_ids, pc)"
| "push_param_ids (Suc k) (param_ids, pc) = push_param_ids k (param_ids @ [pc], Suc pc)"

subsection \<open>Create vessels (lines 56-87)\<close>

definition read_boundary_conditions :: "json \<Rightarrow> string \<Rightarrow> 'i locals \<Rightarrow> 'i locals option" where
  "read_boundary_conditions vessel_config vessel_name s =
     (if has_key vessel_config ''boundary_conditions'' then do {
        vessel_bc_config \<leftarrow> obj_find vessel_config ''boundary_conditions'';
        s1 \<leftarrow> (if has_key vessel_bc_config ''inlet'' then do {
                 bc \<leftarrow> get_string vessel_bc_config ''inlet'';
                 Some (s\<lparr>inlet_connections := inlet_connections s @ [(bc, vessel_name)]\<rparr>) }
               else Some s);
        (if has_key vessel_bc_config ''outlet'' then do {
           bc \<leftarrow> get_string vessel_bc_config ''outlet'';
           Some (s1\<lparr>outlet_connections := outlet_connections s1 @ [(vessel_name, bc)]\<rparr>) }
         else Some s1) }
      else Some s)"

definition create_vessel :: "nat \<Rightarrow> json \<Rightarrow> 'i locals \<Rightarrow> 'i locals option" where
  "create_vessel num_params vessel_config s = do {
     vessel_name \<leftarrow> get_string vessel_config ''vessel_name'';
     vessel_id \<leftarrow> get_int vessel_config ''vessel_id'';
     let (param_ids, pc) = push_param_ids num_params ([], param_counter s);
     m \<leftarrow> add_block BLOODVESSEL param_ids vessel_name (model s);
     read_boundary_conditions vessel_config vessel_name
       (s\<lparr>model := m, param_counter := pc,
          vessel_id_map := map_insert vessel_id vessel_name (vessel_id_map s)\<rparr>) }"

definition create_vessels :: "nat \<Rightarrow> json list \<Rightarrow> 'i locals \<Rightarrow> 'i locals option" where
  "create_vessels num_params vessels s = foldM (create_vessel num_params) vessels s"

subsection \<open>Create junctions (lines 89-115)\<close>

definition create_junction :: "nat \<Rightarrow> json \<Rightarrow> 'i locals \<Rightarrow> 'i locals option" where
  "create_junction num_params junction_config s = do {
     junction_name \<leftarrow> get_string junction_config ''junction_name'';
     outlet_vessels \<leftarrow> get_int_array junction_config ''outlet_vessels'';
     let num_outlets = length outlet_vessels;
     s1 \<leftarrow> (if num_outlets = 1 then do {
              m \<leftarrow> add_block JUNCTION [] junction_name (model s);
              Some (s\<lparr>model := m\<rparr>) }
            else do {
              let (param_ids, pc) = push_param_ids (num_outlets * num_params) ([], param_counter s);
              m \<leftarrow> add_block BLOODVESSELJUNCTION param_ids junction_name (model s);
              Some (s\<lparr>model := m, param_counter := pc\<rparr>) });
     inlet_vessels \<leftarrow> get_int_array junction_config ''inlet_vessels'';
     let s2 = s1\<lparr>connections := connections s1 @
                map (\<lambda>vessel_id. (map_index (vessel_id_map s1) vessel_id, junction_name)) inlet_vessels\<rparr>;
     outlet_vessels2 \<leftarrow> get_int_array junction_config ''outlet_vessels'';
     Some (s2\<lparr>connections := connections s2 @
                map (\<lambda>vessel_id. (junction_name, map_index (vessel_id_map s2) vessel_id)) outlet_vessels2\<rparr>) }"

definition create_junctions :: "nat \<Rightarrow> json list \<Rightarrow> 'i locals \<Rightarrow> 'i locals option" where
  "create_junctions num_params junctions s = foldM (create_junction num_params) junctions s"

subsection \<open>Create connections (lines 117-133)\<close>

definition connect :: "string \<times> string \<Rightarrow> 'i model \<Rightarrow> 'i model option" where
  "connect connection m = do {
     ele1 \<leftarrow> block_index (blocks m) (fst connection);
     ele2 \<leftarrow> block_index (blocks m) (snd connection);
     e1 \<leftarrow> vec_at (blocks m) ele1;
     e2 \<leftarrow> vec_at (blocks m) ele2;
     add_node [ele1] [ele2] (name e1 @ '':'' @ name e2) m }"

definition connect_inlet :: "string \<times> string \<Rightarrow> 'i model \<Rightarrow> 'i model option" where
  "connect_inlet connection m = do {
     ele \<leftarrow> block_index (blocks m) (snd connection);
     e \<leftarrow> vec_at (blocks m) ele;
     add_node [] [ele] (fst connection @ '':'' @ name e) m }"

definition connect_outlet :: "string \<times> string \<Rightarrow> 'i model \<Rightarrow> 'i model option" where
  "connect_outlet connection m = do {
     ele \<leftarrow> block_index (blocks m) (fst connection);
     e \<leftarrow> vec_at (blocks m) ele;
     add_node [ele] [] (name e @ '':'' @ snd connection) m }"

definition create_connections :: "'i locals \<Rightarrow> 'i model option" where
  "create_connections s = do {
     m1 \<leftarrow> foldM connect (connections s) (model s);
     m2 \<leftarrow> foldM connect_inlet (inlet_connections s) m1;
     foldM connect_outlet (outlet_connections s) m2 }"

subsection \<open>Code outside the sources\<close>

text \<open>
  \<^verbatim>\<open>Model::finalize\<close> and \<^verbatim>\<open>Block::update_gradient\<close> are declared in model/*.hpp, which
  is not part of the sources; the update of lines 249-250 and the norm of lines
  252-259 with its comparison in line 264 are floating-point arithmetic of Eigen and
  libm. They are parameters of the model:
  \<^item> \<open>finalize\<close> numbers the equations and fills the variable list of the DOF handler;
  \<^item> \<open>update_gradient\<close> is given the block, the Jacobian and the residual, \<open>alpha\<close>,
    \<open>y\<close> and \<open>dy\<close>, and returns the Jacobian and the residual it leaves;
  \<^item> \<open>gauss_newton_update jacobian residual alpha\<close> is \<^verbatim>\<open>new_alpha\<close> of line 250;
  \<^item> \<open>update_below_tolerance param_counter new_alpha alpha\<close> is the test
    \<^verbatim>\<open>residual_norm < 1e-10\<close> of line 264.
\<close>

record 'i external =
  finalize :: "'i model \<Rightarrow> 'i model option"
  update_gradient :: "'i block \<Rightarrow> sparse_matrix \<times> real list \<Rightarrow> real list \<Rightarrow> real list
                       \<Rightarrow> real list \<Rightarrow> sparse_matrix \<times> real list"
  gauss_newton_update :: "sparse_matrix \<Rightarrow> real list \<Rightarrow> real list \<Rightarrow> real list"
  update_below_tolerance :: "nat \<Rightarrow> real list \<Rightarrow> real list \<Rightarrow> bool"

text \<open>
  Modelled from the spec: \<^verbatim>\<open>DofHandler::size\<close>, the number of rows of the state
  vector, one per variable name; and \<^verbatim>\<open>Model::get_num_blocks(true)\<close>, the number of
  blocks, visited in insertion order.
\<close>

definition dofhandler_size :: "'i model \<Rightarrow> nat" where
  "dofhandler_size m = length (dofhandler_variables m)"

definition get_num_blocks :: "'i model \<Rightarrow> nat" where
  "get_num_blocks m = length (blocks m)"

subsection \<open>Machine integers\<close>

text \<open>
  \<^verbatim>\<open>num_observations\<close> and \<^verbatim>\<open>num_dofs\<close> are \<^verbatim>\<open>int\<close>. A size that an \<^verbatim>\<open>int\<close> cannot
  hold and a product that overflows it (undefined behaviour) have no value in the
  model.
\<close>

definition size_to_int :: "nat \<Rightarrow> nat option" where
  "size_to_int n = (if n < 2147483648 then Some n else None)"

definition int_mul :: "nat \<Rightarrow> nat \<Rightarrow> nat option" where
  "int_mul a b = (if a * b < 2147483648 then Some (a * b) else None)"

subsection \<open>Reading the observations (lines 144-160)\<close>

definition read_observations :: "json \<Rightarrow> 'i locals \<Rightarrow> 'i locals option" where
  "read_observations config s = do {
     y_values \<leftarrow> obj_find config ''y'';
     dy_values \<leftarrow> obj_find config ''dy'';
     obs \<leftarrow> mapM (\<lambda>var_name. do {
              y \<leftarrow> get_double_array y_values var_name;
              dy \<leftarrow> get_double_array dy_values var_name;
              Some (y, dy) }) (dofhandler_variables (model s));
     first \<leftarrow> vec_at (map fst obs) 0;
     n \<leftarrow> size_to_int (length first);
     d \<leftarrow> size_to_int (dofhandler_size (model s));
     Some (s\<lparr>y_all := map fst obs, dy_all := map snd obs,
              num_observations := n, num_dofs := d\<rparr>) }"

subsection \<open>The initial alpha (lines 163-204)\<close>

text \<open>
  \<^verbatim>\<open>j.value(key, 0.0)\<close> of the JSON library: the member converted to a number, the
  default if the object has no such member; not defined on anything but an object.
\<close>

fun value_or :: "json \<Rightarrow> string \<Rightarrow> real \<Rightarrow> real option" where
  "value_or (JObject kvs) k d = (case map_of kvs k of None \<Rightarrow> Some d | Some v \<Rightarrow> as_double v)"
| "value_or _ k d = None"

text \<open>\<^verbatim>\<open>alpha[block->global_param_ids[t]] = x\<close>\<close>

definition set_param :: "'i block \<Rightarrow> nat \<Rightarrow> real \<Rightarrow> real list \<Rightarrow> real list option" where
  "set_param block t x a = do { p \<leftarrow> vec_at (global_param_ids block) t; vec_put a p x }"

text \<open>\<^verbatim>\<open>alpha[block->global_param_ids[t]]\<close>\<close>

definition get_param :: "'i block \<Rightarrow> nat \<Rightarrow> real list \<Rightarrow> real option" where
  "get_param block t a = do { p \<leftarrow> vec_at (global_param_ids block) t; vec_at a p }"

definition init_vessel :: "nat \<Rightarrow> json \<Rightarrow> 'i locals \<Rightarrow> 'i locals option" where
  "init_vessel num_params vessel_config s = do {
     vessel_name \<leftarrow> obj_find vessel_config ''vessel_name'' \<bind> as_string;
     block \<leftarrow> get_block (model s) vessel_name;
     values \<leftarrow> obj_find vessel_config ''zero_d_element_values'';
     r \<leftarrow> value_or values ''R_poiseuille'' 0;
     a0 \<leftarrow> set_param block 0 r (alpha s);
     c \<leftarrow> value_or values ''C'' 0;
     a1 \<leftarrow> set_param block 1 c a0;
     l \<leftarrow> value_or values ''L'' 0;
     a2 \<leftarrow> set_param block 2 l a1;
     a3 \<leftarrow> (if num_params > 3 then do {
              ste \<leftarrow> value_or values ''stenosis_coefficient'' 0;
              set_param block 3 ste a2 }
            else Some a2);
     Some (s\<lparr>alpha := a3\<rparr>) }"

definition init_outlet :: "nat \<Rightarrow> 'i block \<Rightarrow> nat \<Rightarrow> nat \<Rightarrow> real list \<Rightarrow> real list option" where
  "init_outlet num_params block num_outlets i a = do {
     a0 \<leftarrow> set_param block i 0 a;
     a1 \<leftarrow> set_param block (i + num_outlets) 0 a0;
     a2 \<leftarrow> set_param block (i + 2 * num_outlets) 0 a1;
     (if num_params > 3 then set_param block (i + 3 * num_outlets) 0 a2 else Some a2) }"

definition init_junction :: "nat \<Rightarrow> json \<Rightarrow> 'i locals \<Rightarrow> 'i locals option" where
  "init_junction num_params junction_config s = do {
     junction_name \<leftarrow> obj_find junction_config ''junction_name'' \<bind> as_string;
     block \<leftarrow> get_block (model s) junction_name;
     let num_outlets = length (outlet_nodes block);
     (if num_outlets < 2 then Some s
      else do {
        a \<leftarrow> foldM (init_outlet num_params block num_outlets) [0..<num_outlets] (alpha s);
        Some (s\<lparr>alpha := a\<rparr>) }) }"

definition init_alpha :: "nat \<Rightarrow> json \<Rightarrow> 'i locals \<Rightarrow> 'i locals option" where
  "init_alpha num_params output_config s = do {
     vessels \<leftarrow> obj_find output_config ''vessels'' \<bind> as_array;
     s1 \<leftarrow> foldM (init_vessel num_params) vessels (s\<lparr>alpha := replicate (param_counter s) 0\<rparr>);
     junctions \<leftarrow> obj_find output_config ''junctions'' \<bind> as_array;
     foldM (init_junction num_params) junctions s1 }"

subsection \<open>Gauss-Newton (lines 207-266)\<close>

definition max_nliter :: nat where
  "max_nliter = 100"

text \<open>Lines 211-215: the Jacobian and the residual are constructed before the loop.\<close>

definition allocate_system :: "'i locals \<Rightarrow> 'i locals" where
  "allocate_system s =
     s\<lparr>jacobian := SparseMatrix (num_observations s * dofhandler_size (model s)) (param_counter s),
       residual := replicate (num_observations s * dofhandler_size (model s)) 0\<rparr>"

text \<open>Lines 221-228: the state and its derivative at sample \<open>i\<close>.\<close>

definition read_sample :: "'i locals \<Rightarrow> nat \<Rightarrow> (real list \<times> real list) option" where
  "read_sample s i = do {
     rows \<leftarrow> mapM (\<lambda>k. do {
               y_k \<leftarrow> vec_at (y_all s) k \<bind> (\<lambda>row. vec_at row i);
               dy_k \<leftarrow> vec_at (dy_all s) k \<bind> (\<lambda>row. vec_at row i);
               Some (y_k, dy_k) }) [0..<dofhandler_size (model s)];
     Some (map fst rows, map snd rows) }"

definition set_block :: "nat \<Rightarrow> 'i block \<Rightarrow> 'i locals \<Rightarrow> 'i locals" where
  "set_block j b s = s\<lparr>model := (model s)\<lparr>blocks := (blocks (model s))[j := b]\<rparr>\<rparr>"

text \<open>Lines 235-237: \<^verbatim>\<open>global_eqn_ids[l] += num_dofs\<close> for every \<open>l\<close>.\<close>

definition shift_eqn_ids :: "nat \<Rightarrow> 'w::len word block \<Rightarrow> 'w word block" where
  "shift_eqn_ids d b = b\<lparr>global_eqn_ids := map (\<lambda>e. e + of_nat d) (global_eqn_ids b)\<rparr>"

text \<open>Lines 232-237: one block at one sample.\<close>

definition update_block ::
  "'w::len word external \<Rightarrow> real list \<Rightarrow> real list \<Rightarrow> nat \<Rightarrow> 'w word locals \<Rightarrow> 'w word locals option" where
  "update_block ext y dy j s = do {
     block \<leftarrow> vec_at (blocks (model s)) j;
     let (jac, res) = update_gradient ext block (jacobian s, residual s) (alpha s) y dy;
     Some (set_block j (shift_eqn_ids (num_dofs s) block) (s\<lparr>jacobian := jac, residual := res\<rparr>)) }"

text \<open>Lines 220-239: one sample.\<close>

definition process_sample :: "'w::len word external \<Rightarrow> nat \<Rightarrow> 'w word locals \<Rightarrow> 'w word locals option" where
  "process_sample ext i s = do {
     (y, dy) \<leftarrow> read_sample s i;
     foldM (update_block ext y dy) [0..<get_num_blocks (model s)] s }"

text \<open>
  Lines 243-246: \<^verbatim>\<open>global_eqn_ids[l] -= num_dofs * num_observations\<close> for every \<open>l\<close>;
  the product is formed in \<^verbatim>\<open>int\<close> each time the statement runs.
\<close>

definition restore_block :: "nat \<Rightarrow> 'w::len word locals \<Rightarrow> 'w word locals option" where
  "restore_block j s = do {
     block \<leftarrow> vec_at (blocks (model s)) j;
     ids \<leftarrow> mapM (\<lambda>e. do {
              shift \<leftarrow> int_mul (num_dofs s) (num_observations s);
              Some (e - of_nat shift) }) (global_eqn_ids block);
     Some (set_block j (block\<lparr>global_eqn_ids := ids\<rparr>) s) }"

text \<open>Lines 220-247: the sweep over the samples and the restoring loop.\<close>

definition sweep :: "'w::len word external \<Rightarrow> 'w word locals \<Rightarrow> 'w word locals option" where
  "sweep ext s = do {
     s1 \<leftarrow> foldM (process_sample ext) [0..<num_observations s] s;
     foldM restore_block [0..<get_num_blocks (model s1)] s1 }"

text \<open>
  Lines 219-264: one outer iteration. It returns the variables it leaves and
  whether line 264 breaks out of the loop.
\<close>

definition gn_iteration :: "'w::len word external \<Rightarrow> 'w word locals \<Rightarrow> ('w word locals \<times> bool) option" where
  "gn_iteration ext s = do {
     s1 \<leftarrow> sweep ext s;
     let new_alpha = gauss_newton_update ext (jacobian s1) (residual s1) (alpha s1);
     let below = update_below_tolerance ext (param_counter s1) new_alpha (alpha s1);
     Some (s1\<lparr>alpha := new_alpha\<rparr>, below) }"

text \<open>Line 217: \<^verbatim>\<open>for (nliter = 0; nliter < max_nliter; nliter++)\<close>, from a given \<open>nliter\<close>.\<close>

function gauss_newton_from :: "'w::len word external \<Rightarrow> nat \<Rightarrow> 'w word locals \<Rightarrow> 'w word locals option" where
  "gauss_newton_from ext nliter s =
     (if nliter < max_nliter then
        (case gn_iteration ext s of
           None \<Rightarrow> None
         | Some (s', below) \<Rightarrow> if below then Some s' else gauss_newton_from ext (nliter + 1) s')
      else Some s)"
  by pat_completeness auto
termination
  by (relation "measure (\<lambda>(ext, nliter, s). max_nliter - nliter)") auto

declare gauss_newton_from.simps [simp del]

definition gauss_newton :: "'w::len word external \<Rightarrow> 'w word locals \<Rightarrow> 'w word locals option" where
  "gauss_newton ext s = gauss_newton_from ext 0 (allocate_system s)"

text \<open>
  For stating how often the loop runs: the variables after \<open>k\<close> outer iterations,
  whatever the test of line 264 says, and what that test says in iteration \<open>k\<close>
  (counted from 0).
\<close>

fun iterations :: "'w::len word external \<Rightarrow> nat \<Rightarrow> 'w word locals \<Rightarrow> 'w word locals option" where
  "iterations ext 0 s = Some s"
| "iterations ext (Suc k) s = do { t \<leftarrow> iterations ext k s; (t', below) \<leftarrow> gn_iteration ext t; Some t' }"

definition below_at :: "'w::len word external \<Rightarrow> nat \<Rightarrow> 'w word locals \<Rightarrow> bool option" where
  "below_at ext k s = do { t \<leftarrow> iterations ext k s; (t', below) \<leftarrow> gn_iteration ext t; Some below }"


subsection \<open>Write output (lines 268-356)\<close>

text \<open>Lines 275-290: the object assigned to \<^verbatim>\<open>zero_d_element_values\<close> of a vessel.\<close>

definition vessel_element_values :: "nat \<Rightarrow> bool \<Rightarrow> 'i block \<Rightarrow> real list \<Rightarrow> json option" where
  "vessel_element_values num_params zero_capacitance block a = do {
     stenosis_coeff \<leftarrow> (if num_params > 3 then get_param block 3 a else Some 0);
     c_value \<leftarrow> (if \<not> zero_capacitance then get_param block 1 a else Some 0);
     r \<leftarrow> get_param block 0 a;
     l \<leftarrow> get_param block 2 a;
     Some (JObject [(''R_poiseuille'', JFloat r), (''C'', JFloat c_value), (''L'', JFloat l),
                    (''stenosis_coefficient'', JFloat stenosis_coeff)]) }"

definition write_vessel :: "nat \<Rightarrow> bool \<Rightarrow> 'i locals \<Rightarrow> json \<Rightarrow> json option" where
  "write_vessel num_params zero_capacitance s vessel_config = do {
     vessel_name \<leftarrow> obj_find vessel_config ''vessel_name'' \<bind> as_string;
     block \<leftarrow> get_block (model s) vessel_name;
     values \<leftarrow> vessel_element_values num_params zero_capacitance block (alpha s);
     obj_set vessel_config ''zero_d_element_values'' values }"

text \<open>Lines 305-348: the object assigned to \<^verbatim>\<open>junction_values\<close> of a junction.\<close>

definition junction_element_values ::
  "nat \<Rightarrow> bool \<Rightarrow> 'i block \<Rightarrow> nat \<Rightarrow> real list \<Rightarrow> json option" where
  "junction_element_values num_params zero_capacitance block num_outlets a = do {
     r_values \<leftarrow> mapM (\<lambda>i. get_param block i a) [0..<num_outlets];
     c_values \<leftarrow> (if zero_capacitance then mapM (\<lambda>i. Some 0) [0..<num_outlets]
                  else mapM (\<lambda>i. get_param block (i + num_outlets) a) [0..<num_outlets]);
     l_values \<leftarrow> mapM (\<lambda>i. get_param block (i + 2 * num_outlets) a) [0..<num_outlets];
     ste_values \<leftarrow> (if num_params > 3
                    then mapM (\<lambda>i. get_param block (i + 3 * num_outlets) a) [0..<num_outlets]
                    else mapM (\<lambda>i. Some 0) [0..<num_outlets]);
     Some (JObject [(''R_poiseuille'', JArray (map JFloat r_values)),
                    (''C'', JArray (map JFloat c_values)),
                    (''L'', JArray (map JFloat l_values)),
                    (''stenosis_coefficient'', JArray (map JFloat ste_values))]) }"

definition write_junction :: "nat \<Rightarrow> bool \<Rightarrow> 'i locals \<Rightarrow> json \<Rightarrow> json option" where
  "write_junction num_params zero_capacitance s junction_config = do {
     junction_name \<leftarrow> obj_find junction_config ''junction_name'' \<bind> as_string;
     block \<leftarrow> get_block (model s) junction_name;
     let num_outlets = length (outlet_nodes block);
     (if num_outlets < 2 then Some junction_config
      else do {
        values \<leftarrow> junction_element_values num_params zero_capacitance block num_outlets (alpha s);
        j1 \<leftarrow> obj_set junction_config ''junction_type'' (JString ''BloodVesselJunction'');
        obj_set j1 ''junction_values'' values }) }"

definition write_output :: "nat \<Rightarrow> bool \<Rightarrow> json \<Rightarrow> 'i locals \<Rightarrow> json option" where
  "write_output num_params zero_capacitance output_config s = do {
     vessels \<leftarrow> obj_find output_config ''vessels'' \<bind> as_array;
     vessels' \<leftarrow> mapM (write_vessel num_params zero_capacitance s) vessels;
     c1 \<leftarrow> obj_set output_config ''vessels'' (JArray vessels');
     junctions \<leftarrow> obj_find c1 ''junctions'' \<bind> as_array;
     junctions' \<leftarrow> mapM (write_junction num_params zero_capacitance s) junctions;
     c2 \<leftarrow> obj_set c1 ''junctions'' (JArray junctions');
     c3 \<leftarrow> obj_erase c2 ''y'';
     c4 \<leftarrow> obj_erase c3 ''dy'';
     obj_erase c4 ''calibration_parameters'' }"

subsection \<open>The run\<close>

text \<open>Lines 47-133: the options and the graph, up to the call of \<^verbatim>\<open>finalize\<close>.\<close>

definition read_options :: "json \<Rightarrow> (bool \<times> bool) option" where
  "read_options config = do {
     calibration_parameters \<leftarrow> obj_find config ''calibration_parameters'';
     calibrate_stenosis \<leftarrow> get_bool calibration_parameters ''calibrate_stenosis_coefficient'';
     zero_capacitance \<leftarrow> get_bool calibration_parameters ''set_capacitance_to_zero'';
     Some (calibrate_stenosis, zero_capacitance) }"

definition build_graph :: "nat \<Rightarrow> json \<Rightarrow> 'i locals option" where
  "build_graph num_params config = do {
     vessels \<leftarrow> obj_find config ''vessels'' \<bind> as_array;
     s1 \<leftarrow> create_vessels num_params vessels initial_locals;
     junctions \<leftarrow> obj_find config ''junctions'' \<bind> as_array;
     s2 \<leftarrow> create_junctions num_params junctions s1;
     m \<leftarrow> create_connections s2;
     Some (s2\<lparr>model := m\<rparr>) }"

text \<open>Lines 47-204: everything before the Gauss-Newton loop.\<close>

definition prepare :: "'i external \<Rightarrow> json \<Rightarrow> (nat \<times> bool \<times> 'i locals) option" where
  "prepare ext config = do {
     (calibrate_stenosis, zero_capacitance) \<leftarrow> read_options config;
     let num_params = num_params_of calibrate_stenosis;
     s \<leftarrow> build_graph num_params config;
     m \<leftarrow> finalize ext (model s);
     s1 \<leftarrow> read_observations config (s\<lparr>model := m\<rparr>);
     s2 \<leftarrow> init_alpha num_params config s1;
     Some (num_params, zero_capacitance, s2) }"

text \<open>The whole run: the document read from the input file to the document written.\<close>

definition calibrator :: "'w::len word external \<Rightarrow> json \<Rightarrow> json option" where
  "calibrator ext config = do {
     (num_params, zero_capacitance, s) \<leftarrow> prepare ext config;
     s' \<leftarrow> gauss_newton ext s;
     write_output num_params zero_capacitance config s' }"

subsection \<open>Documents used as concrete inputs\<close>

text \<open>
  A document with one vessel with warm-start values, no junction and two observed
  variables, the two calibration options being arguments; observations of which
  the derivative sequence of \<open>b\<close> is shorter; and an instance of the code outside
  the sources: two equations per block, an \<open>update_gradient\<close> that, in each row
  of the block, stores a coefficient and adds 1 to the residual entry, an update
  that lowers every parameter by 1, and the test of lines 252-264.
\<close>

definition vessel_doc :: "int \<Rightarrow> string \<Rightarrow> json" where
  "vessel_doc i nm = JObject [(''vessel_id'', JInt i), (''vessel_name'', JString nm),
     (''zero_d_element_values'', JObject [(''R_poiseuille'', JFloat 1), (''C'', JFloat 2),
        (''L'', JFloat 3), (''stenosis_coefficient'', JFloat 4)])]"

definition single_vessel_config :: "bool \<Rightarrow> bool \<Rightarrow> json" where
  "single_vessel_config calibrate_stenosis zero_capacitance = JObject
     [(''calibration_parameters'', JObject
         [(''calibrate_stenosis_coefficient'', JBool calibrate_stenosis),
          (''set_capacitance_to_zero'', JBool zero_capacitance)]),
      (''vessels'', JArray [vessel_doc 0 ''V0'']),
      (''junctions'', JArray []),
      (''y'', JObject [(''a'', JArray [JFloat 1, JFloat 2]), (''b'', JArray [JFloat 1, JFloat 2])]),
      (''dy'', JObject [(''a'', JArray [JFloat 1, JFloat 2]), (''b'', JArray [JFloat 1, JFloat 2])])]"

definition bifurcation_vessels :: "json list" where
  "bifurcation_vessels =
     [vessel_doc 0 ''V0'', vessel_doc 1 ''V1'', vessel_doc 2 ''V2'', vessel_doc 3 ''V3'']"

definition bifurcation_junctions :: "json list" where
  "bifurcation_junctions =
     [JObject [(''junction_name'', JString ''J0''), (''junction_type'', JString ''NORMAL_JUNCTION''),
               (''inlet_vessels'', JArray [JInt 0]), (''outlet_vessels'', JArray [JInt 1, JInt 2])],
      JObject [(''junction_name'', JString ''J1''), (''junction_type'', JString ''NORMAL_JUNCTION''),
               (''inlet_vessels'', JArray [JInt 2]), (''outlet_vessels'', JArray [JInt 3])]]"

definition bifurcation_config :: json where
  "bifurcation_config = JObject
     [(''calibration_parameters'', JObject
         [(''calibrate_stenosis_coefficient'', JBool False),
          (''set_capacitance_to_zero'', JBool True)]),
      (''vessels'', JArray bifurcation_vessels),
      (''junctions'', JArray bifurcation_junctions),
      (''y'', JObject []),
      (''dy'', JObject [])]"

definition ragged_observations :: json where
  "ragged_observations = JObject
     [(''y'', JObject [(''a'', JArray [JFloat 1, JFloat 2]), (''b'', JArray [JFloat 1, JFloat 2])]),
      (''dy'', JObject [(''a'', JArray [JFloat 1, JFloat 2]), (''b'', JArray [JFloat 1])])]"

definition two_variables :: "32 word locals" where
  "two_variables = initial_locals\<lparr>model := empty_model\<lparr>dofhandler_variables := [''a'', ''b'']\<rparr>\<rparr>"

text \<open>
  Lines 252-264 with the arithmetic of the reals in the place of that of
  \<^verbatim>\<open>double\<close>: \<^verbatim>\<open>diff = new_alpha - alpha\<close>, the sum of \<^verbatim>\<open>diff[i] * diff[i]\<close> over
  \<^verbatim>\<open>i < param_counter\<close>, its power 0.5, and the comparison with \<^verbatim>\<open>1e-10\<close>. Both
  vectors have \<^verbatim>\<open>param_counter\<close> entries in the code; \<open>n\<close> is \<^verbatim>\<open>param_counter\<close>.
\<close>

definition norm_below_tolerance :: "nat \<Rightarrow> real list \<Rightarrow> real list \<Rightarrow> bool" where
  "norm_below_tolerance n new_alpha a =
     (sqrt (fold (\<lambda>i residual_norm.
                     residual_norm + (new_alpha ! i - a ! i) * (new_alpha ! i - a ! i))
                 [0..<n] 0) < 1 / 10 ^ 10)"

definition example_external :: "32 word external" where
  "example_external = \<lparr>
     finalize = (\<lambda>m. Some (m\<lparr>blocks := map (\<lambda>b. b\<lparr>global_eqn_ids := [0, 1]\<rparr>) (blocks m),
                              dofhandler_variables := [''a'', ''b'']\<rparr>)),
     update_gradient = (\<lambda>b (jac, res) a y dy.
        (jac\<lparr>coeffs := fold (\<lambda>e c. c((unat e, 0) \<mapsto> 1)) (global_eqn_ids b) (coeffs jac)\<rparr>,
         fold (\<lambda>e r. r[unat e := r ! unat e + 1]) (global_eqn_ids b) res)),
     gauss_newton_update = (\<lambda>jac res a. map (\<lambda>x. x - 1) a),
     update_below_tolerance = norm_below_tolerance\<rparr>"

text \<open>
  The variables of \<^verbatim>\<open>main\<close> that \<open>single_vessel_config False False\<close> and
  \<open>example_external\<close> give before the Gauss-Newton loop, and after \<open>k\<close> of its
  iterations.
\<close>

definition prepared :: "32 word locals" where
  "prepared = \<lparr>model = \<lparr>blocks = [\<lparr>name = ''V0'', block_type = BLOODVESSEL,
                  global_param_ids = [0, 1, 2], global_eqn_ids = [0, 1],
                  inlet_nodes = [], outlet_nodes = []\<rparr>],
                nodes = [], dofhandler_variables = [''a'', ''b'']\<rparr>,
     param_counter = 3, vessel_id_map = [(0, ''V0'')], connections = [],
     inlet_connections = [], outlet_connections = [],
     y_all = [[1, 2], [1, 2]], dy_all = [[1, 2], [1, 2]],
     num_observations = 2, num_dofs = 2,
     alpha = [1, 2, 3], jacobian = SparseMatrix 0 0, residual = []\<rparr>"

definition after_iterations :: "nat \<Rightarrow> 32 word locals" where
  "after_iterations k = prepared\<lparr>
     jacobian := \<lparr>nrows = 4, ncols = 3,
                  coeffs = (if k = 0 then Map.empty
                            else [(0, 0) \<mapsto> 1, (1, 0) \<mapsto> 1, (2, 0) \<mapsto> 1, (3, 0) \<mapsto> 1])\<rparr>,
     residual := replicate 4 (of_nat k),
     alpha := [1 - of_nat k, 2 - of_nat k, 3 - of_nat k]\<rparr>"

text \<open>
  The variables of \<^verbatim>\<open>main\<close> that \<open>bifurcation_config\<close> gives after graph
  construction, after the junction loop and after the vessel loop, those after
  graph construction with an estimated \<open>alpha\<close>, and the document written from them.
\<close>

definition bifurcation_graph :: "32 word locals" where
  "bifurcation_graph = \<lparr>model = \<lparr>blocks =
       [\<lparr>name = ''V0'', block_type = BLOODVESSEL, global_param_ids = [0, 1, 2],
         global_eqn_ids = [], inlet_nodes = [], outlet_nodes = [''V0:J0'']\<rparr>,
        \<lparr>name = ''V1'', block_type = BLOODVESSEL, global_param_ids = [3, 4, 5],
         global_eqn_ids = [], inlet_nodes = [''J0:V1''], outlet_nodes = []\<rparr>,
        \<lparr>name = ''V2'', block_type = BLOODVESSEL, global_param_ids = [6, 7, 8],
         global_eqn_ids = [], inlet_nodes = [''J0:V2''], outlet_nodes = [''V2:J1'']\<rparr>,
        \<lparr>name = ''V3'', block_type = BLOODVESSEL, global_param_ids = [9, 10, 11],
         global_eqn_ids = [], inlet_nodes = [''J1:V3''], outlet_nodes = []\<rparr>,
        \<lparr>name = ''J0'', block_type = BLOODVESSELJUNCTION,
         global_param_ids = [12, 13, 14, 15, 16, 17],
         global_eqn_ids = [], inlet_nodes = [''V0:J0''], outlet_nodes = [''J0:V1'', ''J0:V2'']\<rparr>,
        \<lparr>name = ''J1'', block_type = JUNCTION, global_param_ids = [],
         global_eqn_ids = [], inlet_nodes = [''V2:J1''], outlet_nodes = [''J1:V3'']\<rparr>],
       nodes = [''V0:J0'', ''J0:V1'', ''J0:V2'', ''V2:J1'', ''J1:V3''],
       dofhandler_variables = []\<rparr>,
     param_counter = 18,
     vessel_id_map = [(0, ''V0''), (1, ''V1''), (2, ''V2''), (3, ''V3'')],
     connections = [(''V0'', ''J0''), (''J0'', ''V1''), (''J0'', ''V2''), (''V2'', ''J1''), (''J1'', ''V3'')],
     inlet_connections = [], outlet_connections = [],
     y_all = [], dy_all = [], num_observations = 0, num_dofs = 0, alpha = [],
     jacobian = SparseMatrix 0 0, residual = []\<rparr>"

definition bifurcation_junctions_created :: "32 word locals" where
  "bifurcation_junctions_created = bifurcation_graph\<lparr>model := (model bifurcation_graph)\<lparr>
       blocks := map (\<lambda>b. b\<lparr>inlet_nodes := [], outlet_nodes := []\<rparr>) (blocks (model bifurcation_graph)),
       nodes := []\<rparr>\<rparr>"

definition bifurcation_vessels_created :: "32 word locals" where
  "bifurcation_vessels_created = bifurcation_junctions_created\<lparr>
       model := (model bifurcation_junctions_created)\<lparr>
         blocks := take 4 (blocks (model bifurcation_junctions_created))\<rparr>,
       param_counter := 12, connections := []\<rparr>"

definition bifurcation_estimated :: "32 word locals" where
  "bifurcation_estimated =
     bifurcation_graph\<lparr>alpha := [1, 2, 3, 4, 5, 6, 7, 8, 9, 10, 11, 12, 13, 14, 15, 16, 17, 18]\<rparr>"

definition bifurcation_output :: json where
  "bifurcation_output = JObject
     [(''vessels'', JArray
        [JObject [(''vessel_id'', JInt 0), (''vessel_name'', JString ''V0''),
           (''zero_d_element_values'', JObject [(''R_poiseuille'', JFloat 1), (''C'', JFloat 0),
              (''L'', JFloat 3), (''stenosis_coefficient'', JFloat 0)])],
         JObject [(''vessel_id'', JInt 1), (''vessel_name'', JString ''V1''),
           (''zero_d_element_values'', JObject [(''R_poiseuille'', JFloat 4), (''C'', JFloat 0),
              (''L'', JFloat 6), (''stenosis_coefficient'', JFloat 0)])],
         JObject [(''vessel_id'', JInt 2), (''vessel_name'', JString ''V2''),
           (''zero_d_element_values'', JObject [(''R_poiseuille'', JFloat 7), (''C'', JFloat 0),
              (''L'', JFloat 9), (''stenosis_coefficient'', JFloat 0)])],
         JObject [(''vessel_id'', JInt 3), (''vessel_name'', JString ''V3''),
           (''zero_d_element_values'', JObject [(''R_poiseuille'', JFloat 10), (''C'', JFloat 0),
              (''L'', JFloat 12), (''stenosis_coefficient'', JFloat 0)])]]),
      (''junctions'', JArray
        [JObject [(''junction_name'', JString ''J0''),
           (''junction_type'', JString ''BloodVesselJunction''),
           (''inlet_vessels'', JArray [JInt 0]), (''outlet_vessels'', JArray [JInt 1, JInt 2]),
           (''junction_values'', JObject
              [(''R_poiseuille'', JArray [JFloat 13, JFloat 14]),
               (''C'', JArray [JFloat 0, JFloat 0]),
               (''L'', JArray [JFloat 17, JFloat 18]),
               (''stenosis_coefficient'', JArray [JFloat 0, JFloat 0])])],
         JObject [(''junction_name'', JString ''J1''), (''junction_type'', JString ''NORMAL_JUNCTION''),
           (''inlet_vessels'', JArray [JInt 2]), (''outlet_vessels'', JArray [JInt 3])]])]"

subsection \<open>Parameter ids handed out so far\<close>

text \<open>
  The parameter ids of the blocks, in insertion order, are 0 up to the counter; and
  what the junction loop registers for a junction, given the blocks before it.
\<close>

definition params_consecutive :: "'i locals \<Rightarrow> bool" where
  "params_consecutive s \<longleftrightarrow>
     concat (map global_param_ids (blocks (model s))) = [0..<param_counter s]"

definition registered_junction :: "nat \<Rightarrow> json \<Rightarrow> 'i block list \<Rightarrow> 'i block \<Rightarrow> bool" where
  "registered_junction num_params junction_config earlier b =
     (case (get_string junction_config ''junction_name'',
            get_int_array junction_config ''outlet_vessels'') of
        (Some junction_name, Some outlet_vessels) \<Rightarrow>
          name b = junction_name \<and>
          concat (map global_param_ids earlier) = [0..<length (concat (map global_param_ids earlier))] \<and>
          (if length outlet_vessels = 1 then block_type b = JUNCTION \<and> global_param_ids b = []
           else if 2 \<le> length outlet_vessels then
             block_type b = BLOODVESSELJUNCTION \<and>
             global_param_ids b =
               [length (concat (map global_param_ids earlier))..<
                length (concat (map global_param_ids earlier)) + length outlet_vessels * num_params]
           else True)
      | _ \<Rightarrow> False)"

subsection \<open>What the initial alpha holds\<close>

text \<open>
  \<open>seeded num_params vessel_config a base\<close>: the entries of \<open>a\<close> from \<open>base\<close> on are
  the warm-start values of the vessel, each 0 if the document does not give it:
  \<^verbatim>\<open>R_poiseuille\<close>, \<^verbatim>\<open>C\<close>, \<^verbatim>\<open>L\<close> and, with more than three parameters per vessel,
  \<^verbatim>\<open>stenosis_coefficient\<close>.
\<close>

definition seeded :: "nat \<Rightarrow> json \<Rightarrow> real list \<Rightarrow> nat \<Rightarrow> bool" where
  "seeded num_params vessel_config a base =
     (case obj_find vessel_config ''zero_d_element_values'' of
        None \<Rightarrow> False
      | Some values \<Rightarrow>
          value_or values ''R_poiseuille'' 0 = Some (a ! base) \<and>
          value_or values ''C'' 0 = Some (a ! (base + 1)) \<and>
          value_or values ''L'' 0 = Some (a ! (base + 2)) \<and>
          (if 3 < num_params then value_or values ''stenosis_coefficient'' 0 = Some (a ! (base + 3))
           else True))"

text \<open>\<open>a'\<close> is \<open>a\<close> but for entries at positions of \<open>S\<close> that have become 0.\<close>

definition zeroed_within :: "nat set \<Rightarrow> real list \<Rightarrow> real list \<Rightarrow> bool" where
  "zeroed_within S a a' \<longleftrightarrow>
     length a' = length a \<and> (\<forall>p. a' ! p = a ! p \<or> (p \<in> S \<and> a' ! p = 0))"

definition bifurcation_initial :: "32 word locals" where
  "bifurcation_initial =
     bifurcation_graph\<lparr>alpha := [1, 2, 3, 1, 2, 3, 1, 2, 3, 1, 2, 3, 0, 0, 0, 0, 0, 0]\<rparr>"

subsection \<open>What an outer iteration leaves alone\<close>

text \<open>
  Everything of the variables of \<^verbatim>\<open>main\<close> but the Jacobian, the residual and the
  equation ids of the blocks.
\<close>

definition frame :: "'i locals \<Rightarrow> 'i locals \<Rightarrow> bool" where
  "frame s s' \<longleftrightarrow> num_dofs s' = num_dofs s \<and> num_observations s' = num_observations s \<and>
     y_all s' = y_all s \<and> dy_all s' = dy_all s \<and> alpha s' = alpha s \<and>
     param_counter s' = param_counter s \<and>
     dofhandler_variables (model s') = dofhandler_variables (model s) \<and>
     map name (blocks (model s')) = map name (blocks (model s)) \<and>
     map global_param_ids (blocks (model s')) = map global_param_ids (blocks (model s)) \<and>
     map outlet_nodes (blocks (model s')) = map outlet_nodes (blocks (model s))"

section \<open>Properties\<close>

lemma push_param_ids_eq:
  "push_param_ids n (param_ids, pc) = (param_ids @ [pc..<pc + n], pc + n)"
proof (induction n arbitrary: param_ids pc)
  case 0
  show ?case by simp
next
  case (Suc n)
  have "[pc..<pc + Suc n] = pc # [Suc pc..<Suc pc + n]"
    by (simp add: upt_conv_Cons)
  with Suc show ?case by simp
qed

subsection \<open>Loops and containers\<close>

lemma replicate_numeral: "replicate (numeral k) x = x # replicate (pred_numeral k) x"
  by (simp add: numeral_eq_Suc)

lemma mapM_SomeD: "mapM f xs = Some ys \<Longrightarrow> list_all2 (\<lambda>x y. f x = Some y) xs ys"
  by (induction xs arbitrary: ys) (auto split: Option.bind_splits)

lemma mapM_SomeI: "list_all2 (\<lambda>x y. f x = Some y) xs ys \<Longrightarrow> mapM f xs = Some ys"
  by (induction xs ys rule: list_all2_induct) auto

lemma mapM_Some_iff: "mapM f xs = Some ys \<longleftrightarrow> list_all2 (\<lambda>x y. f x = Some y) xs ys"
  using mapM_SomeD mapM_SomeI by blast

lemma mapM_length: "mapM f xs = Some ys \<Longrightarrow> length ys = length xs"
  by (simp add: mapM_Some_iff list_all2_lengthD)

lemma mapM_nth: "mapM f xs = Some ys \<Longrightarrow> i < length xs \<Longrightarrow> f (xs ! i) = Some (ys ! i)"
  by (auto simp: mapM_Some_iff dest: list_all2_nthD)

lemma mapM_None_iff: "mapM f xs = None \<longleftrightarrow> (\<exists>x\<in>set xs. f x = None)"
  by (induction xs) (auto split: Option.bind_splits)

lemma vec_at_Some_iff: "vec_at xs i = Some x \<longleftrightarrow> i < length xs \<and> x = xs ! i"
  by (auto simp: vec_at_def)

lemma vec_at_None_iff: "vec_at xs i = None \<longleftrightarrow> length xs \<le> i"
  by (auto simp: vec_at_def)

lemma read_sample_None_iff:
  assumes "length (y_all s) = dofhandler_size (model s)" "length (dy_all s) = dofhandler_size (model s)"
  shows "read_sample s i = None \<longleftrightarrow>
    (\<exists>k<dofhandler_size (model s). length (y_all s ! k) \<le> i \<or> length (dy_all s ! k) \<le> i)"
proof -
  let ?n = "dofhandler_size (model s)"
  let ?body = "\<lambda>k. do {
               y_k \<leftarrow> vec_at (y_all s) k \<bind> (\<lambda>row. vec_at row i);
               dy_k \<leftarrow> vec_at (dy_all s) k \<bind> (\<lambda>row. vec_at row i);
               Some (y_k, dy_k) }"
  have "read_sample s i = None \<longleftrightarrow> mapM ?body [0..<?n] = None"
    by (simp add: read_sample_def split: Option.bind_splits)
  also have "\<dots> \<longleftrightarrow> (\<exists>k<?n. ?body k = None)"
    by (auto simp: mapM_None_iff)
  also have "\<dots> \<longleftrightarrow> (\<exists>k<?n. length (y_all s ! k) \<le> i \<or> length (dy_all s ! k) \<le> i)"
  proof -
    have "?body k = None \<longleftrightarrow> length (y_all s ! k) \<le> i \<or> length (dy_all s ! k) \<le> i" if "k < ?n" for k
      using that assms by (auto simp: vec_at_def split: Option.bind_splits)
    then show ?thesis by blast
  qed
  finally show ?thesis .
qed

lemma read_observations_Some:
  assumes "read_observations config s = Some s'"
  shows "\<exists>y_values dy_values obs.
     obj_find config ''y'' = Some y_values \<and> obj_find config ''dy'' = Some dy_values \<and>
     list_all2 (\<lambda>v p. get_double_array y_values v = Some (fst p) \<and> get_double_array dy_values v = Some (snd p))
        (dofhandler_variables (model s)) obs \<and> obs \<noteq> [] \<and>
     s' = s\<lparr>y_all := map fst obs, dy_all := map snd obs,
            num_observations := length (fst (hd obs)), num_dofs := dofhandler_size (model s)\<rparr>"
proof -
  from assms obtain y_values dy_values obs first n d where
    y: "obj_find config ''y'' = Some y_values" and dy: "obj_find config ''dy'' = Some dy_values"
    and obs: "mapM (\<lambda>var_name. do {
              y \<leftarrow> get_double_array y_values var_name;
              dy \<leftarrow> get_double_array dy_values var_name;
              Some (y, dy) }) (dofhandler_variables (model s)) = Some obs"
    and first: "vec_at (map fst obs) 0 = Some first"
    and n: "size_to_int (length first) = Some n" and d: "size_to_int (dofhandler_size (model s)) = Some d"
    and s': "s' = s\<lparr>y_all := map fst obs, dy_all := map snd obs, num_observations := n, num_dofs := d\<rparr>"
    by (auto simp: read_observations_def split: Option.bind_splits)
  from obs have "list_all2 (\<lambda>v p. get_double_array y_values v = Some (fst p) \<and> get_double_array dy_values v = Some (snd p))
        (dofhandler_variables (model s)) obs"
    unfolding mapM_Some_iff
    by (rule list_all2_mono) (auto split: Option.bind_splits)
  moreover from first have "obs \<noteq> []" "first = fst (hd obs)"
    by (auto simp: vec_at_def hd_conv_nth split: if_splits)
  moreover from n d have "n = length first" "d = dofhandler_size (model s)"
    by (auto simp: size_to_int_def split: if_splits)
  ultimately show ?thesis using y dy s' by blast
qed

subsection \<open>Evaluating the concrete inputs\<close>

lemma list_update_numeral: "(x # xs)[numeral k := y] = x # xs[pred_numeral k := y]"
  by (simp add: numeral_eq_Suc)

lemmas run_defs = read_options_def single_vessel_config_def vessel_doc_def get_bool_def
        num_params_of_def build_graph_def create_vessels_def create_vessel_def
        create_junctions_def create_connections_def get_string_def get_int_def
        push_param_ids_eq add_block_def initial_locals_def empty_model_def
        read_boundary_conditions_def has_key_def map_insert_def upt_conv_Cons
        init_alpha_def init_vessel_def get_block_def vec_at_def vec_put_def set_param_def
        get_param_def write_output_def write_vessel_def vessel_element_values_def
        replicate_numeral list_update_numeral
        prepare_def example_external_def read_observations_def get_double_array_def
        size_to_int_def dofhandler_size_def

lemmas gn_defs = gn_iteration_def sweep_def process_sample_def read_sample_def update_block_def
        restore_block_def set_block_def shift_eqn_ids_def int_mul_def get_num_blocks_def
        allocate_system_def SparseMatrix_def dofhandler_size_def vec_at_def upt_conv_Cons
        example_external_def replicate_numeral list_update_numeral norm_below_tolerance_def

lemma prepare_example:
  "prepare example_external (single_vessel_config False False) = Some (3, False, prepared)"
  by (simp add: run_defs prepared_def)

lemma sqrt_3_not_below: "\<not> sqrt 3 < 1 / 10 ^ 10"
proof -
  have "1 \<le> sqrt 3" by simp
  moreover have "(1::real) / 10 ^ 10 < 1" by simp
  ultimately show ?thesis by linarith
qed

lemma after_iterations_0: "after_iterations 0 = allocate_system prepared"
  by (simp add: after_iterations_def allocate_system_def prepared_def SparseMatrix_def
      dofhandler_size_def replicate_numeral)

lemma example_iteration:
  "gn_iteration example_external (after_iterations k) = Some (after_iterations (k + 1), False)"
  using sqrt_3_not_below by (simp add: gn_defs prepared_def after_iterations_def)

lemma first_iteration:
  "gn_iteration example_external (allocate_system prepared) = Some (after_iterations 1, False)"
  using example_iteration [of 0] by (simp only: after_iterations_0 add_0)

lemma second_iteration:
  "gn_iteration example_external (after_iterations 1) = Some (after_iterations 2, False)"
  using example_iteration [of 1] by (simp only: one_add_one)

lemma bind_weak_cong: "m = m' \<Longrightarrow> Option.bind m f = Option.bind m' f"
  by simp

lemmas graph_defs = create_junction_def get_int_array_def map_index_def connect_def
  connect_inlet_def connect_outlet_def add_node_def add_outlet_node_def add_inlet_node_def
  bifurcation_config_def bifurcation_vessels_def bifurcation_junctions_def init_junction_def init_outlet_def write_junction_def
  junction_element_values_def Let_def

lemma build_bifurcation: "build_graph 3 bifurcation_config = Some bifurcation_graph"
  by (simp add: run_defs graph_defs bifurcation_graph_def cong: bind_weak_cong)

lemma write_bifurcation:
  "write_output 3 True bifurcation_config bifurcation_estimated = Some bifurcation_output"
  by (simp add: run_defs graph_defs bifurcation_graph_def bifurcation_estimated_def
        bifurcation_output_def cong: bind_weak_cong)

subsection \<open>Observations\<close>

text \<open>
  Claim C10. \<^verbatim>\<open>num_observations\<close> is the length of the observed-value sequence of
  the first variable of the DOF handler and of nothing else: reading the
  observations succeeds whatever the lengths of the other sequences are. The
  accesses \<^verbatim>\<open>y_all[k][i]\<close> and \<^verbatim>\<open>dy_all[k][i]\<close> of the sample loop are inside the
  sequences for every sample \<open>i < num_observations\<close> exactly when every \<open>y\<close> and
  \<open>dy\<close> sequence has at least \<open>num_observations\<close> entries.
\<close>

theorem num_observations_from_first_variable:
  assumes "read_observations config s = Some s'"
  shows "(\<exists>y_values v vs ys. obj_find config ''y'' = Some y_values \<and>
            dofhandler_variables (model s) = v # vs \<and>
            get_double_array y_values v = Some ys \<and> num_observations s' = length ys) \<and>
         ((\<forall>i<num_observations s'. read_sample s' i \<noteq> None) \<longleftrightarrow>
          (\<forall>row\<in>set (y_all s' @ dy_all s'). num_observations s' \<le> length row))"
proof -
  from read_observations_Some [OF assms] obtain y_values dy_values obs where
    y: "obj_find config ''y'' = Some y_values"
    and rel: "list_all2 (\<lambda>v p. get_double_array y_values v = Some (fst p) \<and> get_double_array dy_values v = Some (snd p))
        (dofhandler_variables (model s)) obs"
    and ne: "obs \<noteq> []"
    and s': "s' = s\<lparr>y_all := map fst obs, dy_all := map snd obs,
            num_observations := length (fst (hd obs)), num_dofs := dofhandler_size (model s)\<rparr>"
    by blast
  from rel ne obtain v vs p ps where vars: "dofhandler_variables (model s) = v # vs" and obs: "obs = p # ps"
    and p: "get_double_array y_values v = Some (fst p)"
    by (cases obs; cases "dofhandler_variables (model s)") auto
  have first: "\<exists>y_values v vs ys. obj_find config ''y'' = Some y_values \<and>
            dofhandler_variables (model s) = v # vs \<and>
            get_double_array y_values v = Some ys \<and> num_observations s' = length ys"
    using y vars p obs s' by auto
  have len: "length obs = dofhandler_size (model s')"
    using rel s' by (simp add: dofhandler_size_def list_all2_lengthD)
  define n where "n = num_observations s'"
  have none: "read_sample s' i = None \<longleftrightarrow> (\<exists>k<length obs. length (fst (obs ! k)) \<le> i \<or> length (snd (obs ! k)) \<le> i)" for i
    using read_sample_None_iff [of s' i] len s' by auto
  have "(\<forall>i<n. read_sample s' i \<noteq> None) \<longleftrightarrow> (\<forall>row\<in>set (y_all s' @ dy_all s'). n \<le> length row)"
  proof
    assume a: "\<forall>i<n. read_sample s' i \<noteq> None"
    show "\<forall>row\<in>set (y_all s' @ dy_all s'). n \<le> length row"
    proof
      fix row assume "row \<in> set (y_all s' @ dy_all s')"
      then obtain k where k: "k < length obs" "row = fst (obs ! k) \<or> row = snd (obs ! k)"
        using s' by (auto simp: in_set_conv_nth)
      show "n \<le> length row"
      proof (rule ccontr)
        assume "\<not> n \<le> length row"
        then have "length row < n" by simp
        with a have "read_sample s' (length row) \<noteq> None" by blast
        with none k show False by auto
      qed
    qed
  next
    assume b: "\<forall>row\<in>set (y_all s' @ dy_all s'). n \<le> length row"
    show "\<forall>i<n. read_sample s' i \<noteq> None"
    proof (intro allI impI)
      fix i assume i: "i < n"
      have "\<not> (\<exists>k<length obs. length (fst (obs ! k)) \<le> i \<or> length (snd (obs ! k)) \<le> i)"
      proof
        assume "\<exists>k<length obs. length (fst (obs ! k)) \<le> i \<or> length (snd (obs ! k)) \<le> i"
        then obtain k where k: "k < length obs" "length (fst (obs ! k)) \<le> i \<or> length (snd (obs ! k)) \<le> i" by blast
        then have "fst (obs ! k) \<in> set (y_all s' @ dy_all s')" "snd (obs ! k) \<in> set (y_all s' @ dy_all s')"
          using s' by auto
        with b have "n \<le> length (fst (obs ! k))" "n \<le> length (snd (obs ! k))" by blast+
        with k i show False by auto
      qed
      with none show "read_sample s' i \<noteq> None" by simp
    qed
  qed
  with first show ?thesis by (simp add: n_def)
qed

theorem num_observations_from_first_variable_witness:
  "read_observations ragged_observations two_variables
     = Some (two_variables\<lparr>y_all := [[1, 2], [1, 2]], dy_all := [[1, 2], [1]],
                             num_observations := 2, num_dofs := 2\<rparr>) \<and>
   (\<exists>i<2. read_sample (two_variables\<lparr>y_all := [[1, 2], [1, 2]], dy_all := [[1, 2], [1]],
                             num_observations := 2, num_dofs := 2\<rparr>) i = None)"
proof -
  let ?s' = "two_variables\<lparr>y_all := [[1, 2], [1, 2]], dy_all := [[1, 2], [1]],
                             num_observations := 2, num_dofs := 2\<rparr>"
  have r: "read_observations ragged_observations two_variables = Some ?s'"
    by (simp add: read_observations_def ragged_observations_def two_variables_def
          get_double_array_def vec_at_def size_to_int_def dofhandler_size_def)
  have "\<not> (\<forall>row\<in>set (y_all ?s' @ dy_all ?s'). num_observations ?s' \<le> length row)"
    by simp
  with num_observations_from_first_variable [OF r]
  have "\<not> (\<forall>i<num_observations ?s'. read_sample ?s' i \<noteq> None)"
    by blast
  then obtain i where "i < num_observations ?s'" and none: "read_sample ?s' i = None"
    by blast
  then have "i < 2"
    by simp
  with r none show ?thesis by blast
qed

subsection \<open>Shifting and restoring the equation ids\<close>

lemma frame_refl: "frame s s"
  by (simp add: frame_def)

lemma frame_trans: "frame s s1 \<Longrightarrow> frame s1 s2 \<Longrightarrow> frame s s2"
  by (simp add: frame_def)

lemma map_list_update_same:
  "j < length bs \<Longrightarrow> f b = f (bs ! j) \<Longrightarrow> map f (bs[j := b]) = map f bs"
  by (simp add: map_update list_update_same_conv)

lemma map_list_update_nth:
  "j < length bs \<Longrightarrow> (map f bs)[j := f (bs ! j)] = map f bs"
  by (simp add: list_update_same_conv)

lemma update_block_Some:
  assumes "update_block ext y dy j s = Some s'"
  shows "frame s s' \<and> j < length (blocks (model s)) \<and>
         map global_eqn_ids (blocks (model s')) =
           (map global_eqn_ids (blocks (model s)))
             [j := map (\<lambda>e. e + of_nat (num_dofs s)) (map global_eqn_ids (blocks (model s)) ! j)]"
  using assms
  by (auto simp: update_block_def set_block_def shift_eqn_ids_def vec_at_def frame_def
        map_update map_list_update_same map_list_update_nth split: Option.bind_splits if_splits prod.splits)

lemma mapM_restore:
  "mapM (\<lambda>e. do { shift \<leftarrow> int_mul d n; Some (e - of_nat shift) }) ids = Some ids'
   \<Longrightarrow> ids' = map (\<lambda>e. e - of_nat (d * n)) ids"
  by (induction ids arbitrary: ids') (auto simp: int_mul_def split: Option.bind_splits if_splits)

lemma restore_block_Some:
  assumes "restore_block j s = Some s'"
  shows "frame s s' \<and> j < length (blocks (model s)) \<and>
         map global_eqn_ids (blocks (model s')) =
           (map global_eqn_ids (blocks (model s)))
             [j := map (\<lambda>e. e - of_nat (num_dofs s * num_observations s))
                     (map global_eqn_ids (blocks (model s)) ! j)]"
  using assms
  by (auto simp: restore_block_def set_block_def vec_at_def frame_def
        map_update map_list_update_same map_list_update_nth dest!: mapM_restore split: Option.bind_splits if_splits)

lemma foldM_eqn_ids:
  assumes step: "\<And>j s s'. f j s = Some s' \<Longrightarrow> frame s0 s \<Longrightarrow>
            frame s s' \<and> j < length (blocks (model s)) \<and>
            map global_eqn_ids (blocks (model s')) =
              (map global_eqn_ids (blocks (model s)))[j := h (map global_eqn_ids (blocks (model s)) ! j)]"
    and "foldM f js s = Some s'" and "distinct js" and "frame s0 s"
  shows "frame s s' \<and>
         length (blocks (model s')) = length (blocks (model s)) \<and>
         (\<forall>j<length (blocks (model s)).
            global_eqn_ids (blocks (model s') ! j) =
              (if j \<in> set js then h (global_eqn_ids (blocks (model s) ! j))
               else global_eqn_ids (blocks (model s) ! j)))"
  using assms(2-)
proof (induction js arbitrary: s)
  case Nil
  then show ?case by (simp add: frame_refl)
next
  case (Cons j js)
  from Cons.prems(1) obtain s1 where s1: "f j s = Some s1" and rest: "foldM f js s1 = Some s'"
    by (auto split: Option.bind_splits)
  from step [OF s1 Cons.prems(3)] have fr: "frame s s1" and j: "j < length (blocks (model s))"
    and ids: "map global_eqn_ids (blocks (model s1)) =
              (map global_eqn_ids (blocks (model s)))[j := h (map global_eqn_ids (blocks (model s)) ! j)]"
    by auto
  from ids have len1: "length (blocks (model s1)) = length (blocks (model s))"
    by (metis length_list_update length_map)
  have nth1: "global_eqn_ids (blocks (model s1) ! k) =
      (if k = j then h (global_eqn_ids (blocks (model s) ! j)) else global_eqn_ids (blocks (model s) ! k))"
    if "k < length (blocks (model s))" for k
  proof -
    have "global_eqn_ids (blocks (model s1) ! k) = map global_eqn_ids (blocks (model s1)) ! k"
      using that len1 by simp
    also have "\<dots> = (if k = j then h (global_eqn_ids (blocks (model s) ! j))
                     else global_eqn_ids (blocks (model s) ! k))"
      using that j by (simp add: ids nth_list_update)
    finally show ?thesis .
  qed
  from Cons.prems(2) have dj: "j \<notin> set js" and d: "distinct js" by auto
  from Cons.IH [OF rest d frame_trans [OF Cons.prems(3) fr]]
  have fr2: "frame s1 s'" and len2: "length (blocks (model s')) = length (blocks (model s1))"
    and nth2: "\<forall>k<length (blocks (model s1)). global_eqn_ids (blocks (model s') ! k) =
        (if k \<in> set js then h (global_eqn_ids (blocks (model s1) ! k))
         else global_eqn_ids (blocks (model s1) ! k))"
    by auto
  show ?case
    using fr fr2 len1 len2 nth1 nth2 dj by (auto intro: frame_trans)
qed

lemma foldM_all_blocks:
  assumes step: "\<And>j s s'. f j s = Some s' \<Longrightarrow> frame s0 s \<Longrightarrow>
            frame s s' \<and> j < length (blocks (model s)) \<and>
            map global_eqn_ids (blocks (model s')) =
              (map global_eqn_ids (blocks (model s)))[j := h (map global_eqn_ids (blocks (model s)) ! j)]"
    and "foldM f [0..<get_num_blocks (model s)] s = Some s'" and "frame s0 s"
  shows "frame s s' \<and>
         map global_eqn_ids (blocks (model s')) = map h (map global_eqn_ids (blocks (model s)))"
proof -
  from foldM_eqn_ids [of f s0 h, OF step assms(2) _ assms(3)]
  have fr: "frame s s'" and len: "length (blocks (model s')) = length (blocks (model s))"
    and nth: "\<forall>j<length (blocks (model s)).
            global_eqn_ids (blocks (model s') ! j) =
              (if j \<in> set [0..<get_num_blocks (model s)] then h (global_eqn_ids (blocks (model s) ! j))
               else global_eqn_ids (blocks (model s) ! j))"
    by auto
  have "map global_eqn_ids (blocks (model s')) = map h (map global_eqn_ids (blocks (model s)))"
    by (rule nth_equalityI) (use len nth in \<open>auto simp: get_num_blocks_def\<close>)
  with fr show ?thesis by simp
qed

lemma process_sample_Some:
  assumes "process_sample ext i s = Some s'"
  shows "frame s s' \<and>
         map global_eqn_ids (blocks (model s')) =
           map (map (\<lambda>e. e + of_nat (num_dofs s))) (map global_eqn_ids (blocks (model s)))"
proof -
  from assms obtain y dy where
    f: "foldM (update_block ext y dy) [0..<get_num_blocks (model s)] s = Some s'"
    by (auto simp: process_sample_def split: Option.bind_splits prod.splits)
  show ?thesis
  proof (rule foldM_all_blocks [where ?s0.0 = s, OF _ f frame_refl])
    fix j t t'
    assume "update_block ext y dy j t = Some t'" and "frame s t"
    with update_block_Some [of ext y dy j t t'] 
    show "frame t t' \<and> j < length (blocks (model t)) \<and>
         map global_eqn_ids (blocks (model t')) =
           (map global_eqn_ids (blocks (model t)))
             [j := map (\<lambda>e. e + of_nat (num_dofs s)) (map global_eqn_ids (blocks (model t)) ! j)]"
      by (simp add: frame_def)
  qed
qed

lemma samples_Some:
  assumes "foldM (process_sample ext) is s = Some s'"
  shows "frame s s' \<and>
         map global_eqn_ids (blocks (model s')) =
           map (map (\<lambda>e. e + of_nat (length is * num_dofs s))) (map global_eqn_ids (blocks (model s)))"
  using assms
proof (induction "is" arbitrary: s)
  case Nil
  then show ?case by (simp add: frame_refl)
next
  case (Cons i "is")
  from Cons.prems obtain s1 where s1: "process_sample ext i s = Some s1"
    and rest: "foldM (process_sample ext) is s1 = Some s'"
    by (auto split: Option.bind_splits)
  from process_sample_Some [OF s1] have fr: "frame s s1"
    and ids: "map global_eqn_ids (blocks (model s1)) =
           map (map (\<lambda>e. e + of_nat (num_dofs s))) (map global_eqn_ids (blocks (model s)))"
    by auto
  from Cons.IH [OF rest] have fr2: "frame s1 s'"
    and ids2: "map global_eqn_ids (blocks (model s')) =
           map (map (\<lambda>e. e + of_nat (length is * num_dofs s1))) (map global_eqn_ids (blocks (model s1)))"
    by auto
  have "num_dofs s1 = num_dofs s" using fr by (simp add: frame_def)
  then show ?case
    using fr fr2 ids ids2 by (auto intro: frame_trans simp: algebra_simps)
qed

lemma sweep_Some:
  assumes "sweep ext s = Some s'"
  shows "frame s s' \<and> map global_eqn_ids (blocks (model s')) = map global_eqn_ids (blocks (model s))"
proof -
  from assms obtain s1 where s1: "foldM (process_sample ext) [0..<num_observations s] s = Some s1"
    and r: "foldM restore_block [0..<get_num_blocks (model s1)] s1 = Some s'"
    by (auto simp: sweep_def split: Option.bind_splits)
  from samples_Some [OF s1] have fr: "frame s s1"
    and ids: "map global_eqn_ids (blocks (model s1)) =
           map (map (\<lambda>e. e + of_nat (num_observations s * num_dofs s))) (map global_eqn_ids (blocks (model s)))"
    by auto
  have "frame s1 s' \<and> map global_eqn_ids (blocks (model s')) =
      map (map (\<lambda>e. e - of_nat (num_dofs s * num_observations s))) (map global_eqn_ids (blocks (model s1)))"
  proof (rule foldM_all_blocks [where ?s0.0 = s1, OF _ r frame_refl])
    fix j t t'
    assume "restore_block j t = Some t'" and "frame s1 t"
    with restore_block_Some [of j t t'] fr
    show "frame t t' \<and> j < length (blocks (model t)) \<and>
         map global_eqn_ids (blocks (model t')) =
           (map global_eqn_ids (blocks (model t)))
             [j := map (\<lambda>e. e - of_nat (num_dofs s * num_observations s)) (map global_eqn_ids (blocks (model t)) ! j)]"
      by (simp add: frame_def)
  qed
  then have fr2: "frame s1 s'"
    and ids2: "map global_eqn_ids (blocks (model s')) =
      map (map (\<lambda>e. e - of_nat (num_dofs s * num_observations s))) (map global_eqn_ids (blocks (model s1)))"
    by auto
  have "map global_eqn_ids (blocks (model s')) = map global_eqn_ids (blocks (model s))"
    unfolding ids2 ids by (simp add: o_def mult.commute)
  with fr fr2 show ?thesis
    by (auto intro: frame_trans)
qed

text \<open>
  Claim C2. One outer Gauss-Newton iteration that runs to its end (every sample
  read, every block visited at every sample, its equation ids shifted by
  \<^verbatim>\<open>num_dofs\<close> each time, and decremented by \<^verbatim>\<open>num_dofs * num_observations\<close> once after
  the sweep) leaves the \<^verbatim>\<open>global_eqn_ids\<close> of every block as they were before it.
\<close>

theorem eqn_ids_restored:
  assumes "gn_iteration ext s = Some (s', below)"
  shows "map global_eqn_ids (blocks (model s')) = map global_eqn_ids (blocks (model s))"
  using assms sweep_Some
  by (fastforce simp: gn_iteration_def Let_def split: Option.bind_splits)

theorem eqn_ids_restored_witness:
  "gn_iteration example_external (allocate_system prepared) = Some (after_iterations 1, False) \<and>
   map global_eqn_ids (blocks (model (after_iterations 1))) = [[0, 1]] \<and>
   map global_eqn_ids (blocks (model (allocate_system prepared))) = [[0, 1]]"
proof -
  have "map global_eqn_ids (blocks (model (allocate_system prepared))) = [[0, 1]]"
    by (simp add: allocate_system_def prepared_def)
  with eqn_ids_restored [OF first_iteration] first_iteration show ?thesis
    by simp
qed

subsection \<open>The Jacobian and the residual within an iteration\<close>

lemma foldM_invariant:
  assumes "\<And>x s s'. f x s = Some s' \<Longrightarrow> Q s \<Longrightarrow> Q s'"
    and "foldM f xs s = Some s'" and "Q s"
  shows "Q s'"
  using assms(2,3)
proof (induction xs arbitrary: s)
  case Nil
  then show ?case by simp
next
  case (Cons x xs)
  from Cons.prems(1) obtain s1 where "f x s = Some s1" "foldM f xs s1 = Some s'"
    by (auto split: Option.bind_splits)
  with assms(1) Cons.IH Cons.prems(2) show ?case by blast
qed

lemma update_block_system:
  assumes "\<And>b jr a y dy. P jr \<Longrightarrow> P (update_gradient ext b jr a y dy)"
    and "update_block ext y dy j s = Some s'" and "P (jacobian s, residual s)"
  shows "P (jacobian s', residual s')"
proof -
  from assms(2) obtain block jac res where
    u: "update_gradient ext block (jacobian s, residual s) (alpha s) y dy = (jac, res)"
    and s': "s' = set_block j (shift_eqn_ids (num_dofs s) block) (s\<lparr>jacobian := jac, residual := res\<rparr>)"
    by (auto simp: update_block_def split: Option.bind_splits prod.splits)
  from assms(1) [OF assms(3), of block "alpha s" y dy] u have "P (jac, res)"
    by simp
  then show ?thesis
    by (simp add: s' set_block_def)
qed

lemma restore_block_system:
  "restore_block j s = Some s' \<Longrightarrow> jacobian s' = jacobian s \<and> residual s' = residual s"
  by (auto simp: restore_block_def set_block_def split: Option.bind_splits)

lemma sweep_system:
  assumes upd: "\<And>b jr a y dy. P jr \<Longrightarrow> P (update_gradient ext b jr a y dy)"
    and "sweep ext s = Some s'" and "P (jacobian s, residual s)"
  shows "P (jacobian s', residual s')"
proof -
  from assms(2) obtain s1 where s1: "foldM (process_sample ext) [0..<num_observations s] s = Some s1"
    and r: "foldM restore_block [0..<get_num_blocks (model s1)] s1 = Some s'"
    by (auto simp: sweep_def split: Option.bind_splits)
  have sample: "P (jacobian t', residual t')"
    if "process_sample ext i t = Some t'" "P (jacobian t, residual t)" for i t t'
  proof -
    from that(1) obtain y dy where
      f: "foldM (update_block ext y dy) [0..<get_num_blocks (model t)] t = Some t'"
      by (auto simp: process_sample_def split: Option.bind_splits prod.splits)
    show ?thesis
    proof (rule foldM_invariant [where Q = "\<lambda>u. P (jacobian u, residual u)", OF _ f that(2)])
      fix x u u'
      assume "update_block ext y dy x u = Some u'" "P (jacobian u, residual u)"
      then show "P (jacobian u', residual u')"
        using update_block_system [of P ext y dy x u u'] upd by blast
    qed
  qed
  have "P (jacobian s1, residual s1)"
    by (rule foldM_invariant [where Q = "\<lambda>u. P (jacobian u, residual u)", OF _ s1])
       (use assms(3) sample in auto)
  then show ?thesis
    by (rule foldM_invariant [where Q = "\<lambda>u. P (jacobian u, residual u)", OF _ r, rotated])
       (auto dest: restore_block_system)
qed


subsection \<open>The iteration bound\<close>

lemma iterations_front:
  "iterations ext (Suc k) s = do { (s1, below) \<leftarrow> gn_iteration ext s; iterations ext k s1 }"
proof (induction k arbitrary: s)
  case 0
  show ?case by (simp split: Option.bind_splits prod.splits)
next
  case (Suc k)
  have "iterations ext (Suc (Suc k)) s =
        do { t \<leftarrow> iterations ext (Suc k) s; (t', below) \<leftarrow> gn_iteration ext t; Some t' }"
    by simp
  also have "\<dots> = do { (s1, below) \<leftarrow> gn_iteration ext s; t \<leftarrow> iterations ext k s1;
                       (t', below) \<leftarrow> gn_iteration ext t; Some t' }"
    unfolding Suc.IH by (simp split: Option.bind_splits prod.splits)
  also have "\<dots> = do { (s1, below) \<leftarrow> gn_iteration ext s; iterations ext (Suc k) s1 }"
    by simp
  finally show ?case .
qed

lemma below_at_front:
  "gn_iteration ext s = Some (s1, b) \<Longrightarrow> below_at ext (Suc k) s = below_at ext k s1"
  unfolding below_at_def iterations_front by simp

lemma gauss_newton_from_iterations:
  "gauss_newton_from ext n s = Some s' \<Longrightarrow> n \<le> max_nliter \<Longrightarrow>
   \<exists>k. n + k \<le> max_nliter \<and> iterations ext k s = Some s'"
proof (induction ext n s rule: gauss_newton_from.induct)
  case (1 ext nliter s)
  note loop = gauss_newton_from.simps [of ext nliter s]
  show ?case
  proof (cases "nliter < max_nliter")
    case False
    with "1.prems" loop have "s' = s" by simp
    with "1.prems" show ?thesis by (intro exI [of _ 0]) simp
  next
    case True
    with "1.prems" loop obtain s1 below where it: "gn_iteration ext s = Some (s1, below)"
      by (auto split: option.splits)
    show ?thesis
    proof (cases below)
      case True
      with it "1.prems" loop \<open>nliter < max_nliter\<close> have "s' = s1" by simp
      with it \<open>nliter < max_nliter\<close> show ?thesis
        by (intro exI [of _ 1]) (simp add: iterations_front del: iterations.simps(2))
    next
      case False
      with it "1.prems" loop \<open>nliter < max_nliter\<close>
      have "gauss_newton_from ext (nliter + 1) s1 = Some s'"
        by simp
      from "1.IH" [OF \<open>nliter < max_nliter\<close> it refl False this] \<open>nliter < max_nliter\<close>
      obtain k where "nliter + 1 + k \<le> max_nliter" "iterations ext k s1 = Some s'"
        by auto
      with it show ?thesis
        by (intro exI [of _ "Suc k"]) (simp add: iterations_front del: iterations.simps(2))
    qed
  qed
qed

lemma gauss_newton_from_exhausted:
  "\<forall>k. n + k < max_nliter \<longrightarrow> below_at ext k s = Some False \<Longrightarrow> n \<le> max_nliter \<Longrightarrow>
   \<exists>t. iterations ext (max_nliter - n) s = Some t \<and> gauss_newton_from ext n s = Some t"
proof (induction ext n s rule: gauss_newton_from.induct)
  case (1 ext nliter s)
  note loop = gauss_newton_from.simps [of ext nliter s]
  show ?case
  proof (cases "nliter < max_nliter")
    case False
    with "1.prems" loop show ?thesis by simp
  next
    case True
    with "1.prems"(1) have "below_at ext 0 s = Some False"
      by (metis add.right_neutral)
    then obtain s1 where it: "gn_iteration ext s = Some (s1, False)"
      by (auto simp: below_at_def split: Option.bind_splits)
    have later: "\<forall>k. nliter + 1 + k < max_nliter \<longrightarrow> below_at ext k s1 = Some False"
    proof (intro allI impI)
      fix k assume "nliter + 1 + k < max_nliter"
      then have "nliter + Suc k < max_nliter" by simp
      with "1.prems"(1) have "below_at ext (Suc k) s = Some False" by blast
      with below_at_front [OF it] show "below_at ext k s1 = Some False" by simp
    qed
    have "\<not> False" by simp
    from "1.IH" [OF True it refl this later] True
    obtain t where "iterations ext (max_nliter - (nliter + 1)) s1 = Some t"
      and "gauss_newton_from ext (nliter + 1) s1 = Some t"
      by auto
    moreover have "max_nliter - nliter = Suc (max_nliter - (nliter + 1))"
      using True by simp
    ultimately show ?thesis
      using True it loop by (simp add: iterations_front del: iterations.simps(2))
  qed
qed

text \<open>
  Claim C7. The loop performs at most 100 outer iterations: its result is the
  variables after \<open>k \<le> 100\<close> iterations. If each of the 100 iterations runs to its
  end without passing the test of line 264, the loop ends normally with the
  variables of the 100th iteration; there is no error and no flag, and the run
  writes the output document from them (from their \<open>alpha\<close>) as it does after
  convergence.
\<close>

theorem iteration_bound:
  "(gauss_newton ext s = Some s' \<longrightarrow> (\<exists>k\<le>100. iterations ext k (allocate_system s) = Some s')) \<and>
   ((\<forall>k<100. below_at ext k (allocate_system s) = Some False) \<longrightarrow>
    (\<exists>t. iterations ext 100 (allocate_system s) = Some t \<and> gauss_newton ext s = Some t \<and>
         (prepare ext config = Some (num_params, zero_capacitance, s) \<longrightarrow>
          calibrator ext config = write_output num_params zero_capacitance config t)))"
proof (intro conjI impI)
  assume "gauss_newton ext s = Some s'"
  from gauss_newton_from_iterations [OF this [unfolded gauss_newton_def]]
  show "\<exists>k\<le>100. iterations ext k (allocate_system s) = Some s'"
    by (auto simp: max_nliter_def)
next
  assume "\<forall>k<100. below_at ext k (allocate_system s) = Some False"
  with gauss_newton_from_exhausted [of 0 ext "allocate_system s"]
  obtain t where t: "iterations ext 100 (allocate_system s) = Some t" "gauss_newton ext s = Some t"
    by (auto simp: max_nliter_def gauss_newton_def)
  then show "\<exists>t. iterations ext 100 (allocate_system s) = Some t \<and> gauss_newton ext s = Some t \<and>
         (prepare ext config = Some (num_params, zero_capacitance, s) \<longrightarrow>
          calibrator ext config = write_output num_params zero_capacitance config t)"
    by (auto simp: calibrator_def)
qed


lemma example_iterations:
  "iterations example_external k (after_iterations n) = Some (after_iterations (n + k))"
  by (induction k) (simp_all add: example_iteration)

lemma example_below_at: "below_at example_external k (after_iterations n) = Some False"
  by (simp add: below_at_def example_iterations example_iteration)

theorem iteration_bound_witness:
  "prepare example_external (single_vessel_config False False) = Some (3, False, prepared) \<and>
   iterations example_external 100 (allocate_system prepared) = Some (after_iterations 100) \<and>
   gauss_newton example_external prepared = Some (after_iterations 100) \<and>
   calibrator example_external (single_vessel_config False False)
     = write_output 3 False (single_vessel_config False False) (after_iterations 100) \<and>
   write_output 3 False (single_vessel_config False False) (after_iterations 100)
     = Some (JObject [(''vessels'', JArray [JObject [(''vessel_id'', JInt 0),
          (''vessel_name'', JString ''V0''),
          (''zero_d_element_values'', JObject [(''R_poiseuille'', JFloat (- 99)),
             (''C'', JFloat (- 98)), (''L'', JFloat (- 97)),
             (''stenosis_coefficient'', JFloat 0)])]]),
        (''junctions'', JArray [])])"
proof -
  have it: "iterations example_external 100 (allocate_system prepared) = Some (after_iterations 100)"
    using example_iterations [of 100 0] by (simp only: after_iterations_0 add_0)
  have below: "\<forall>k<100. below_at example_external k (allocate_system prepared) = Some False"
    using example_below_at [of _ 0] by (simp only: after_iterations_0) simp
  from iteration_bound [of example_external prepared "after_iterations 100"
      "single_vessel_config False False" 3 False]
    below prepare_example it
  have "gauss_newton example_external prepared = Some (after_iterations 100)"
    and "calibrator example_external (single_vessel_config False False)
     = write_output 3 False (single_vessel_config False False) (after_iterations 100)"
    by auto
  moreover have "write_output 3 False (single_vessel_config False False) (after_iterations 100)
     = Some (JObject [(''vessels'', JArray [JObject [(''vessel_id'', JInt 0),
          (''vessel_name'', JString ''V0''),
          (''zero_d_element_values'', JObject [(''R_poiseuille'', JFloat (- 99)),
             (''C'', JFloat (- 98)), (''L'', JFloat (- 97)),
             (''stenosis_coefficient'', JFloat 0)])]]),
        (''junctions'', JArray [])])"
    by (simp add: run_defs after_iterations_def prepared_def)
  ultimately show ?thesis
    using prepare_example it by simp
qed

subsection \<open>The Jacobian and the residual across iterations\<close>

lemma gn_iteration_system:
  assumes "\<And>b sys a y dy. P sys \<Longrightarrow> P (update_gradient ext b sys a y dy)"
    and "gn_iteration ext t = Some (t', below)" and "P (jacobian t, residual t)"
  shows "P (jacobian t', residual t')"
proof -
  from assms(2) obtain t1 where t1: "sweep ext t = Some t1"
    and t': "jacobian t' = jacobian t1" "residual t' = residual t1"
    by (auto simp: gn_iteration_def Let_def split: Option.bind_splits)
  from sweep_system [of P ext t t1] assms(1) t1 assms(3) have "P (jacobian t1, residual t1)"
    by blast
  with t' show ?thesis by simp
qed

lemma iterations_system:
  assumes "\<And>b sys a y dy. P sys \<Longrightarrow> P (update_gradient ext b sys a y dy)"
    and "iterations ext k t = Some t'" and "P (jacobian t, residual t)"
  shows "P (jacobian t', residual t')"
  using assms(2)
proof (induction k arbitrary: t')
  case 0
  with assms(3) show ?case by simp
next
  case (Suc k)
  from Suc.prems obtain u below where u: "iterations ext k t = Some u"
    and it: "gn_iteration ext u = Some (t', below)"
    by (auto split: Option.bind_splits)
  from gn_iteration_system [of P ext u t' below] assms(1) it Suc.IH [OF u] show ?case
    by blast
qed

lemma gauss_newton_from_system:
  assumes "\<And>b sys a y dy. P sys \<Longrightarrow> P (update_gradient ext b sys a y dy)"
    and "gauss_newton_from ext nliter t = Some t'" and "P (jacobian t, residual t)"
  shows "P (jacobian t', residual t')"
  using assms
proof (induction ext nliter t rule: gauss_newton_from.induct)
  case (1 ext nliter s)
  note loop = gauss_newton_from.simps [of ext nliter s]
  show ?case
  proof (cases "nliter < max_nliter")
    case False
    with "1.prems"(2,3) loop show ?thesis by simp
  next
    case True
    with "1.prems"(2) loop obtain s1 below where it: "gn_iteration ext s = Some (s1, below)"
      by (auto split: option.splits)
    have P1: "P (jacobian s1, residual s1)"
      by (rule gn_iteration_system [of P ext s s1 below, OF "1.prems"(1) it "1.prems"(3)])
    show ?thesis
    proof (cases below)
      case True
      with it "1.prems"(2) loop \<open>nliter < max_nliter\<close> have "t' = s1" by simp
      with P1 show ?thesis by simp
    next
      case False
      with it "1.prems"(2) loop \<open>nliter < max_nliter\<close>
      have "gauss_newton_from ext (nliter + 1) s1 = Some t'"
        by simp
      from "1.IH" [OF \<open>nliter < max_nliter\<close> it refl False "1.prems"(1) this P1] show ?thesis .
    qed
  qed
qed

text \<open>
  Claim C4, as amended. The Jacobian, of shape
  \<open>(num_observations * num_dofs, param_counter)\<close> and without a stored coefficient,
  and the residual, \<open>num_observations * num_dofs\<close> zeros, are constructed once,
  before the loop. No iteration resets them: an iteration that does not break
  hands the variables it leaves, the Jacobian and the residual among them, to the
  next one, and an iteration changes the two only through the blocks'
  \<open>update_gradient\<close>. So whatever holds of the pair at some iteration and is kept
  by every call of \<open>update_gradient\<close> holds after any number of further iterations
  and when the loop ends: an entry keeps what an earlier iteration left until a
  block writes to its place.
\<close>

theorem system_kept_across_iterations:
  "jacobian (allocate_system s) =
     SparseMatrix (num_observations s * dofhandler_size (model s)) (param_counter s) \<and>
   residual (allocate_system s) = replicate (num_observations s * dofhandler_size (model s)) 0 \<and>
   gauss_newton ext s = gauss_newton_from ext 0 (allocate_system s) \<and>
   (nliter < 100 \<longrightarrow> gn_iteration ext t = Some (t1, False) \<longrightarrow>
      gauss_newton_from ext nliter t = gauss_newton_from ext (nliter + 1) t1) \<and>
   ((\<forall>b sys a y dy. P sys \<longrightarrow> P (update_gradient ext b sys a y dy)) \<longrightarrow>
    P (jacobian t, residual t) \<longrightarrow>
      (\<forall>k t'. iterations ext k t = Some t' \<longrightarrow> P (jacobian t', residual t')) \<and>
      (\<forall>t'. gauss_newton_from ext nliter t = Some t' \<longrightarrow> P (jacobian t', residual t')))"
proof (intro conjI impI allI)
  show "jacobian (allocate_system s) =
     SparseMatrix (num_observations s * dofhandler_size (model s)) (param_counter s)"
    by (simp add: allocate_system_def)
  show "residual (allocate_system s) = replicate (num_observations s * dofhandler_size (model s)) 0"
    by (simp add: allocate_system_def)
  show "gauss_newton ext s = gauss_newton_from ext 0 (allocate_system s)"
    by (simp add: gauss_newton_def)
next
  assume "nliter < 100" and "gn_iteration ext t = Some (t1, False)"
  then show "gauss_newton_from ext nliter t = gauss_newton_from ext (nliter + 1) t1"
    by (subst gauss_newton_from.simps) (simp add: max_nliter_def)
next
  fix k t'
  assume upd: "\<forall>b sys a y dy. P sys \<longrightarrow> P (update_gradient ext b sys a y dy)"
    and P: "P (jacobian t, residual t)" and it: "iterations ext k t = Some t'"
  from upd have "\<And>b sys a y dy. P sys \<Longrightarrow> P (update_gradient ext b sys a y dy)"
    by blast
  from iterations_system [of P ext k t t', OF this it P]
  show "P (jacobian t', residual t')" .
next
  fix t'
  assume upd: "\<forall>b sys a y dy. P sys \<longrightarrow> P (update_gradient ext b sys a y dy)"
    and P: "P (jacobian t, residual t)" and loop: "gauss_newton_from ext nliter t = Some t'"
  from upd have "\<And>b sys a y dy. P sys \<Longrightarrow> P (update_gradient ext b sys a y dy)"
    by blast
  from gauss_newton_from_system [of P ext nliter t t', OF this loop P]
  show "P (jacobian t', residual t')" .
qed

lemma example_loop:
  assumes "n \<le> 100"
  shows "gauss_newton_from example_external n (after_iterations n) = Some (after_iterations 100)"
proof -
  have "\<forall>k. n + k < max_nliter \<longrightarrow> below_at example_external k (after_iterations n) = Some False"
    by (simp add: example_below_at)
  from gauss_newton_from_exhausted [OF this] assms
  obtain t where "iterations example_external (max_nliter - n) (after_iterations n) = Some t"
    and "gauss_newton_from example_external n (after_iterations n) = Some t"
    unfolding max_nliter_def by blast
  with assms show ?thesis
    by (simp add: example_iterations max_nliter_def)
qed

lemma example_update_keeps_column:
  "fold (\<lambda>e c. c((unat e, 0::nat) \<mapsto> 1::real)) ids c (0, 2) = c (0, 2)"
  by (induction ids arbitrary: c) auto

lemma example_update_raises:
  "r ! 0 \<le> fold (\<lambda>e r. r[unat e := r ! unat e + (1::real)]) (ids :: 32 word list) r ! 0"
proof (induction ids arbitrary: r)
  case Nil
  show ?case by simp
next
  case (Cons e ids)
  have "r ! 0 \<le> r[unat e := r ! unat e + 1] ! 0"
  proof (cases "unat e < length r")
    case True
    then show ?thesis by (cases "unat e = 0") (simp_all add: nth_list_update)
  next
    case False
    then have "r[unat e := r ! unat e + 1] = r" by (simp add: list_update_beyond)
    then show ?thesis by simp
  qed
  also note Cons.IH [of "r[unat e := r ! unat e + 1]"]
  finally show ?case by simp
qed

lemma example_update_invariant:
  "coeffs (fst sys) (0, 2) = None \<and> 1 \<le> snd sys ! 0 \<Longrightarrow>
   coeffs (fst (update_gradient example_external b sys a y dy)) (0, 2) = None \<and>
   1 \<le> snd (update_gradient example_external b sys a y dy) ! 0"
proof -
  assume P: "coeffs (fst sys) (0, 2) = None \<and> 1 \<le> snd sys ! 0"
  obtain jac res where sys: "sys = (jac, res)" by (cases sys)
  have u: "update_gradient example_external b (jac, res) a y dy =
      (jac\<lparr>coeffs := fold (\<lambda>e c. c((unat e, 0) \<mapsto> 1)) (global_eqn_ids b) (coeffs jac)\<rparr>,
       fold (\<lambda>e r. r[unat e := r ! unat e + 1]) (global_eqn_ids b) res)"
    by (simp add: example_external_def)
  from P sys have "1 \<le> res ! 0" by simp
  also note example_update_raises [of res "global_eqn_ids b"]
  finally have "1 \<le> fold (\<lambda>e r. r[unat e := r ! unat e + 1]) (global_eqn_ids b) res ! 0" .
  with P show ?thesis
    unfolding sys u by (simp add: example_update_keeps_column)
qed

theorem system_kept_across_iterations_witness:
  "residual (allocate_system prepared) ! 0 = 0 \<and>
   residual (after_iterations 1) ! 0 = 1 \<and>
   gn_iteration example_external (after_iterations 1) = Some (after_iterations 2, False) \<and>
   gauss_newton_from example_external 1 (after_iterations 1)
     = gauss_newton_from example_external 2 (after_iterations 2) \<and>
   gauss_newton_from example_external 1 (after_iterations 1) = Some (after_iterations 100) \<and>
   iterations example_external 3 (after_iterations 1) = Some (after_iterations 4) \<and>
   1 \<le> residual (after_iterations 4) ! 0 \<and>
   1 \<le> residual (after_iterations 100) ! 0"
proof -
  let ?P = "\<lambda>sys. coeffs (fst sys) (0, 2) = None \<and> 1 \<le> snd sys ! 0"
  have upd: "\<forall>b sys a y dy. ?P sys \<longrightarrow> ?P (update_gradient example_external b sys a y dy)"
    using example_update_invariant by blast
  have fresh: "residual (allocate_system prepared) ! 0 = 0"
    by (simp add: allocate_system_def prepared_def dofhandler_size_def replicate_numeral)
  have left: "residual (after_iterations 1) ! 0 = 1"
    by (simp add: after_iterations_def replicate_numeral)
  have start: "?P (jacobian (after_iterations 1), residual (after_iterations 1))"
    using left by (simp add: after_iterations_def)
  have loop: "gauss_newton_from example_external 1 (after_iterations 1) = Some (after_iterations 100)"
    by (rule example_loop) simp
  have "(1::nat) + 3 = 4" by simp
  with example_iterations [of 3 1]
  have three_more: "iterations example_external 3 (after_iterations 1) = Some (after_iterations 4)"
    by (simp only:)
  note kept_across = system_kept_across_iterations
      [of prepared example_external 1 "after_iterations 1" "after_iterations 2" ?P]
  from kept_across second_iteration
  have "gauss_newton_from example_external 1 (after_iterations 1)
      = gauss_newton_from example_external (1 + 1) (after_iterations 2)"
    by simp
  then have next_iteration: "gauss_newton_from example_external 1 (after_iterations 1)
      = gauss_newton_from example_external 2 (after_iterations 2)"
    by (simp only: one_add_one)
  from kept_across upd start
  have kept: "(\<forall>k t'. iterations example_external k (after_iterations 1) = Some t' \<longrightarrow>
                 ?P (jacobian t', residual t')) \<and>
      (\<forall>t'. gauss_newton_from example_external 1 (after_iterations 1) = Some t' \<longrightarrow>
            ?P (jacobian t', residual t'))"
    by blast
  from kept three_more have "?P (jacobian (after_iterations 4), residual (after_iterations 4))"
    by blast
  then have four: "1 \<le> residual (after_iterations 4) ! 0"
    by simp
  from kept loop have "?P (jacobian (after_iterations 100), residual (after_iterations 100))"
    by blast
  then have hundred: "1 \<le> residual (after_iterations 100) ! 0"
    by simp
  from fresh left second_iteration next_iteration loop three_more four hundred
  show ?thesis by blast
qed

text \<open>
  Claim C4 as stated fails. In the run on \<open>single_vessel_config False False\<close>
  with \<open>example_external\<close>, whose \<open>update_gradient\<close> adds 1 to the residual in the
  rows of the block, the first iteration leaves the residual \<open>[1, 1, 1, 1]\<close> and
  does not pass the test of line 264. The second iteration starts from it and
  leaves \<open>[2, 2, 2, 2]\<close>; from a Jacobian and a residual constructed anew it would
  leave \<open>[1, 1, 1, 1]\<close>. The loop ends after 100 iterations with
  \<open>[100, 100, 100, 100]\<close>.
\<close>

theorem residual_carried_over:
  "prepare example_external (single_vessel_config False False) = Some (3, False, prepared) \<and>
   gn_iteration example_external (allocate_system prepared) = Some (after_iterations 1, False) \<and>
   gauss_newton_from example_external 0 (allocate_system prepared)
     = gauss_newton_from example_external 1 (after_iterations 1) \<and>
   residual (after_iterations 1) = [1, 1, 1, 1] \<and>
   gn_iteration example_external (after_iterations 1) = Some (after_iterations 2, False) \<and>
   residual (after_iterations 2) = [2, 2, 2, 2] \<and>
   map_option (\<lambda>(t, below). residual t)
      (gn_iteration example_external (allocate_system (after_iterations 1))) = Some [1, 1, 1, 1] \<and>
   gauss_newton example_external prepared = Some (after_iterations 100) \<and>
   residual (after_iterations 100) = [100, 100, 100, 100]"
proof -
  note first = first_iteration
  have continued: "gauss_newton_from example_external 0 (allocate_system prepared)
      = gauss_newton_from example_external 1 (after_iterations 1)"
    using first by (subst gauss_newton_from.simps) (simp add: max_nliter_def)
  have reset: "map_option (\<lambda>(t, below). residual t)
      (gn_iteration example_external (allocate_system (after_iterations 1))) = Some [1, 1, 1, 1]"
    using sqrt_3_not_below by (simp add: gn_defs prepared_def after_iterations_def)
  have whole: "gauss_newton example_external prepared = Some (after_iterations 100)"
    using example_loop [of 0] by (simp add: gauss_newton_def after_iterations_0)
  have r1: "residual (after_iterations 1) = [1, 1, 1, 1]"
    by (simp add: after_iterations_def replicate_numeral)
  have r2: "residual (after_iterations 2) = [2, 2, 2, 2]"
    by (simp add: after_iterations_def replicate_numeral)
  have r100: "residual (after_iterations 100) = [100, 100, 100, 100]"
    by (simp add: after_iterations_def replicate_numeral)
  from prepare_example first continued r1 second_iteration r2 reset whole r100 show ?thesis
    by blast
qed

subsection \<open>Graph construction\<close>

lemma upt_append_consecutive: "[0..<a] @ [a..<a + b] = [0..<a + b]"
  using upt_add_eq_append [of 0 a b] by simp

lemma read_boundary_conditions_Some:
  "read_boundary_conditions v nm s = Some s' \<Longrightarrow>
   model s' = model s \<and> param_counter s' = param_counter s"
  by (auto simp: read_boundary_conditions_def split: Option.bind_splits if_splits)

lemma create_vessel_Some:
  assumes "create_vessel num_params v s = Some s'"
  shows "\<exists>b. blocks (model s') = blocks (model s) @ [b] \<and>
           global_param_ids b = [param_counter s..<param_counter s + num_params] \<and>
           param_counter s' = param_counter s + num_params"
  using assms
  by (auto simp: create_vessel_def push_param_ids_eq add_block_def
        dest!: read_boundary_conditions_Some split: Option.bind_splits if_splits)

lemma create_vessels_Some:
  "foldM (create_vessel num_params) vessels s = Some s' \<Longrightarrow> params_consecutive s \<Longrightarrow>
   params_consecutive s' \<and> length (blocks (model s')) = length (blocks (model s)) + length vessels"
proof (induction vessels arbitrary: s)
  case Nil
  then show ?case by simp
next
  case (Cons v vessels)
  from Cons.prems(1) obtain s1 where s1: "create_vessel num_params v s = Some s1"
    and rest: "foldM (create_vessel num_params) vessels s1 = Some s'"
    by (auto split: Option.bind_splits)
  from create_vessel_Some [OF s1] Cons.prems(2) have "params_consecutive s1"
    and "length (blocks (model s1)) = Suc (length (blocks (model s)))"
    by (auto simp: params_consecutive_def upt_append_consecutive)
  with Cons.IH [OF rest] show ?case by simp
qed

lemma create_junction_Some:
  assumes "create_junction num_params j s = Some s'" and "params_consecutive s"
  shows "\<exists>b. blocks (model s') = blocks (model s) @ [b] \<and>
           registered_junction num_params j (blocks (model s)) b \<and> params_consecutive s'"
proof -
  from assms(1) obtain junction_name outlet_vessels s1 where
    nm: "get_string j ''junction_name'' = Some junction_name"
    and outs: "get_int_array j ''outlet_vessels'' = Some outlet_vessels"
    and s1: "(if length outlet_vessels = 1 then do {
              m \<leftarrow> add_block JUNCTION [] junction_name (model s);
              Some (s\<lparr>model := m\<rparr>) }
            else do {
              let (param_ids, pc) = push_param_ids (length outlet_vessels * num_params) ([], param_counter s);
              m \<leftarrow> add_block BLOODVESSELJUNCTION param_ids junction_name (model s);
              Some (s\<lparr>model := m, param_counter := pc\<rparr>) }) = Some s1"
    and s': "model s' = model s1" "param_counter s' = param_counter s1"
    unfolding create_junction_def Let_def
    by (auto simp: bind_eq_Some_conv)
  let ?n = "length outlet_vessels"
  let ?pc = "param_counter s"
  from assms(2) have len: "length (concat (map global_param_ids (blocks (model s)))) = ?pc"
    and pre: "concat (map global_param_ids (blocks (model s))) = [0..<?pc]"
    by (simp_all add: params_consecutive_def)
  show ?thesis
  proof (cases "?n = 1")
    case True
    with s1 obtain b where "blocks (model s1) = blocks (model s) @ [b]" "name b = junction_name"
      "block_type b = JUNCTION" "global_param_ids b = []" "param_counter s1 = ?pc"
      by (auto simp: add_block_def split: Option.bind_splits if_splits)
    with True nm outs s' pre len show ?thesis
      by (auto simp: registered_junction_def params_consecutive_def)
  next
    case False
    with s1 obtain b where "blocks (model s1) = blocks (model s) @ [b]" "name b = junction_name"
      "block_type b = BLOODVESSELJUNCTION" "global_param_ids b = [?pc..<?pc + ?n * num_params]"
      "param_counter s1 = ?pc + ?n * num_params"
      by (auto simp: add_block_def push_param_ids_eq split: Option.bind_splits if_splits)
    with False nm outs s' pre len show ?thesis
      by (auto simp: registered_junction_def params_consecutive_def upt_append_consecutive)
  qed
qed

lemma create_junctions_Some:
  "foldM (create_junction num_params) junctions s = Some s' \<Longrightarrow> params_consecutive s \<Longrightarrow>
   params_consecutive s' \<and>
   (\<exists>bs. blocks (model s') = blocks (model s) @ bs \<and> length bs = length junctions \<and>
      (\<forall>i<length junctions.
         registered_junction num_params (junctions ! i) (blocks (model s) @ take i bs) (bs ! i)))"
proof (induction junctions arbitrary: s)
  case Nil
  then show ?case by simp
next
  case (Cons j junctions)
  from Cons.prems(1) obtain s1 where s1: "create_junction num_params j s = Some s1"
    and rest: "foldM (create_junction num_params) junctions s1 = Some s'"
    by (auto split: Option.bind_splits)
  from create_junction_Some [OF s1 Cons.prems(2)] obtain b where
    b: "blocks (model s1) = blocks (model s) @ [b]"
    and reg: "registered_junction num_params j (blocks (model s)) b"
    and inv1: "params_consecutive s1"
    by blast
  from Cons.IH [OF rest inv1] obtain bs where inv': "params_consecutive s'"
    and bs: "blocks (model s') = blocks (model s1) @ bs" "length bs = length junctions"
    and regs: "\<forall>i<length junctions.
         registered_junction num_params (junctions ! i) (blocks (model s1) @ take i bs) (bs ! i)"
    by blast
  have "registered_junction num_params ((j # junctions) ! i) (blocks (model s) @ take i (b # bs)) ((b # bs) ! i)"
    if "i < length (j # junctions)" for i
  proof (cases i)
    case 0
    with reg show ?thesis by simp
  next
    case (Suc i')
    with that regs b show ?thesis by simp
  qed
  with inv' b bs show ?case
    by (intro conjI exI [of _ "b # bs"]) auto
qed

text \<open>
  Claim C8. After the vessel loop and the junction loop, the block of the
  \<open>i\<close>-th junction stands at position \<open>length vessels + i\<close> under the junction's
  name. The blocks before it own the parameter ids \<open>0, \<dots>, start - 1\<close>. With exactly
  one outlet vessel it is a \<^verbatim>\<open>JUNCTION\<close> block without parameter ids; with two or more
  it is a \<^verbatim>\<open>BLOODVESSELJUNCTION\<close> block owning the next
  \<open>outlets * num_params\<close> ids, \<open>start, \<dots>, start + outlets * num_params - 1\<close>.
\<close>

theorem junction_blocks_registered:
  assumes "create_vessels num_params vessels initial_locals = Some s1"
    and "create_junctions num_params junctions s1 = Some s2"
  shows "length (blocks (model s2)) = length vessels + length junctions \<and>
    (\<forall>i<length junctions. \<exists>junction_name outlet_vessels start.
       get_string (junctions ! i) ''junction_name'' = Some junction_name \<and>
       get_int_array (junctions ! i) ''outlet_vessels'' = Some outlet_vessels \<and>
       name (blocks (model s2) ! (length vessels + i)) = junction_name \<and>
       concat (map global_param_ids (take (length vessels + i) (blocks (model s2)))) = [0..<start] \<and>
       (length outlet_vessels = 1 \<longrightarrow>
          block_type (blocks (model s2) ! (length vessels + i)) = JUNCTION \<and>
          global_param_ids (blocks (model s2) ! (length vessels + i)) = []) \<and>
       (2 \<le> length outlet_vessels \<longrightarrow>
          block_type (blocks (model s2) ! (length vessels + i)) = BLOODVESSELJUNCTION \<and>
          global_param_ids (blocks (model s2) ! (length vessels + i))
            = [start..<start + length outlet_vessels * num_params]))"
proof -
  have init: "params_consecutive (initial_locals :: 'a locals)"
    by (simp add: params_consecutive_def initial_locals_def empty_model_def)
  from create_vessels_Some [OF assms(1) [unfolded create_vessels_def] init]
  have inv1: "params_consecutive s1" and len1: "length (blocks (model s1)) = length vessels"
    by (simp_all add: initial_locals_def empty_model_def)
  from create_junctions_Some [OF assms(2) [unfolded create_junctions_def] inv1] obtain bs where
    bs: "blocks (model s2) = blocks (model s1) @ bs" "length bs = length junctions"
    and regs: "\<forall>i<length junctions.
         registered_junction num_params (junctions ! i) (blocks (model s1) @ take i bs) (bs ! i)"
    by blast
  have "\<exists>junction_name outlet_vessels start.
       get_string (junctions ! i) ''junction_name'' = Some junction_name \<and>
       get_int_array (junctions ! i) ''outlet_vessels'' = Some outlet_vessels \<and>
       name (blocks (model s2) ! (length vessels + i)) = junction_name \<and>
       concat (map global_param_ids (take (length vessels + i) (blocks (model s2)))) = [0..<start] \<and>
       (length outlet_vessels = 1 \<longrightarrow>
          block_type (blocks (model s2) ! (length vessels + i)) = JUNCTION \<and>
          global_param_ids (blocks (model s2) ! (length vessels + i)) = []) \<and>
       (2 \<le> length outlet_vessels \<longrightarrow>
          block_type (blocks (model s2) ! (length vessels + i)) = BLOODVESSELJUNCTION \<and>
          global_param_ids (blocks (model s2) ! (length vessels + i))
            = [start..<start + length outlet_vessels * num_params])"
    if i: "i < length junctions" for i
  proof -
    have nth: "blocks (model s2) ! (length vessels + i) = bs ! i"
      using bs len1 by (simp add: nth_append)
    have tk: "take (length vessels + i) (blocks (model s2)) = blocks (model s1) @ take i bs"
      using bs len1 by simp
    from regs i have "registered_junction num_params (junctions ! i) (blocks (model s1) @ take i bs) (bs ! i)"
      by blast
    then show ?thesis
      unfolding nth tk
      by (auto simp: registered_junction_def split: option.splits if_splits)
  qed
  with bs len1 show ?thesis by simp
qed

lemma vessel_loop_bifurcation:
  "create_vessels 3 bifurcation_vessels initial_locals = Some bifurcation_vessels_created"
  by (simp add: run_defs graph_defs bifurcation_graph_def bifurcation_junctions_created_def
        bifurcation_vessels_created_def cong: bind_weak_cong)

lemma junction_loop_bifurcation:
  "create_junctions 3 bifurcation_junctions bifurcation_vessels_created
     = Some bifurcation_junctions_created"
  by (simp add: run_defs graph_defs bifurcation_graph_def bifurcation_junctions_created_def
        bifurcation_vessels_created_def cong: bind_weak_cong)

theorem junction_blocks_registered_witness:
  "create_vessels 3 bifurcation_vessels initial_locals = Some bifurcation_vessels_created \<and>
   create_junctions 3 bifurcation_junctions bifurcation_vessels_created
     = Some bifurcation_junctions_created \<and>
   length (blocks (model bifurcation_junctions_created)) = 6 \<and>
   map (\<lambda>b. (name b, block_type b, global_param_ids b))
       (drop 4 (blocks (model bifurcation_junctions_created)))
     = [(''J0'', BLOODVESSELJUNCTION, [12, 13, 14, 15, 16, 17]), (''J1'', JUNCTION, [])]"
proof -
  from junction_blocks_registered [OF vessel_loop_bifurcation junction_loop_bifurcation]
  have "length (blocks (model bifurcation_junctions_created)) = 6"
    by (simp add: bifurcation_vessels_def bifurcation_junctions_def)
  moreover have "map (\<lambda>b. (name b, block_type b, global_param_ids b))
       (drop 4 (blocks (model bifurcation_junctions_created)))
     = [(''J0'', BLOODVESSELJUNCTION, [12, 13, 14, 15, 16, 17]), (''J1'', JUNCTION, [])]"
    by (simp add: bifurcation_junctions_created_def bifurcation_graph_def)
  ultimately show ?thesis
    using vessel_loop_bifurcation junction_loop_bifurcation by simp
qed

subsection \<open>The initial alpha\<close>

lemma create_vessel_named:
  assumes "create_vessel num_params v s = Some s'"
  shows "\<exists>b. blocks (model s') = blocks (model s) @ [b] \<and>
           get_string v ''vessel_name'' = Some (name b) \<and>
           name b \<notin> set (map name (blocks (model s))) \<and>
           global_param_ids b = [param_counter s..<param_counter s + num_params] \<and>
           param_counter s' = param_counter s + num_params"
  using assms
  by (auto simp: create_vessel_def push_param_ids_eq add_block_def
        dest!: read_boundary_conditions_Some split: Option.bind_splits if_splits)

lemma create_vessels_structure:
  "foldM (create_vessel num_params) vs s = Some s' \<Longrightarrow>
   param_counter s = length (blocks (model s)) * num_params \<Longrightarrow>
   distinct (map name (blocks (model s))) \<Longrightarrow>
   \<exists>bs. blocks (model s') = blocks (model s) @ bs \<and> length bs = length vs \<and>
        param_counter s' = length (blocks (model s')) * num_params \<and>
        distinct (map name (blocks (model s'))) \<and>
        (\<forall>i<length vs. get_string (vs ! i) ''vessel_name'' = Some (name (bs ! i)) \<and>
           global_param_ids (bs ! i) =
             [(length (blocks (model s)) + i) * num_params..<
              (length (blocks (model s)) + i) * num_params + num_params])"
proof (induction vs arbitrary: s)
  case Nil
  then show ?case by simp
next
  case (Cons v vs)
  from Cons.prems(1) obtain s1 where s1: "create_vessel num_params v s = Some s1"
    and rest: "foldM (create_vessel num_params) vs s1 = Some s'"
    by (auto split: Option.bind_splits)
  from create_vessel_named [OF s1] obtain b where
    b: "blocks (model s1) = blocks (model s) @ [b]"
    and nm: "get_string v ''vessel_name'' = Some (name b)"
    and fresh: "name b \<notin> set (map name (blocks (model s)))"
    and ids: "global_param_ids b = [param_counter s..<param_counter s + num_params]"
    and pc: "param_counter s1 = param_counter s + num_params"
    by blast
  have pc1: "param_counter s1 = length (blocks (model s1)) * num_params"
    using pc b Cons.prems(2) by simp
  have d1: "distinct (map name (blocks (model s1)))"
    using b fresh Cons.prems(3) by simp
  from Cons.IH [OF rest pc1 d1] obtain bs where
    bs: "blocks (model s') = blocks (model s1) @ bs" "length bs = length vs"
      "param_counter s' = length (blocks (model s')) * num_params"
      "distinct (map name (blocks (model s')))"
    and each: "\<forall>i<length vs. get_string (vs ! i) ''vessel_name'' = Some (name (bs ! i)) \<and>
           global_param_ids (bs ! i) =
             [(length (blocks (model s1)) + i) * num_params..<
              (length (blocks (model s1)) + i) * num_params + num_params]"
    by blast
  have "get_string ((v # vs) ! i) ''vessel_name'' = Some (name ((b # bs) ! i)) \<and>
           global_param_ids ((b # bs) ! i) =
             [(length (blocks (model s)) + i) * num_params..<
              (length (blocks (model s)) + i) * num_params + num_params]"
    if "i < length (v # vs)" for i
  proof (cases i)
    case 0
    with nm ids Cons.prems(2) show ?thesis by simp
  next
    case (Suc i')
    with that each b show ?thesis by simp
  qed
  with b bs show ?case
    by (intro exI [of _ "b # bs"]) auto
qed

lemma create_junction_named:
  assumes "create_junction num_params j s = Some s'"
  shows "\<exists>b. blocks (model s') = blocks (model s) @ [b] \<and>
           get_string j ''junction_name'' = Some (name b) \<and>
           name b \<notin> set (map name (blocks (model s))) \<and>
           (\<forall>p\<in>set (global_param_ids b). param_counter s \<le> p \<and> p < param_counter s') \<and>
           param_counter s \<le> param_counter s'"
proof -
  from assms obtain junction_name outlet_vessels s1 where
    nm: "get_string j ''junction_name'' = Some junction_name"
    and outs: "get_int_array j ''outlet_vessels'' = Some outlet_vessels"
    and s1: "(if length outlet_vessels = 1 then do {
              m \<leftarrow> add_block JUNCTION [] junction_name (model s);
              Some (s\<lparr>model := m\<rparr>) }
            else do {
              let (param_ids, pc) = push_param_ids (length outlet_vessels * num_params) ([], param_counter s);
              m \<leftarrow> add_block BLOODVESSELJUNCTION param_ids junction_name (model s);
              Some (s\<lparr>model := m, param_counter := pc\<rparr>) }) = Some s1"
    and s': "model s' = model s1" "param_counter s' = param_counter s1"
    unfolding create_junction_def Let_def
    by (auto simp: bind_eq_Some_conv)
  from s1 obtain b where "blocks (model s1) = blocks (model s) @ [b]" "name b = junction_name"
    "name b \<notin> set (map name (blocks (model s)))"
    "\<forall>p\<in>set (global_param_ids b). param_counter s \<le> p \<and> p < param_counter s1"
    "param_counter s \<le> param_counter s1"
    by (auto simp: add_block_def push_param_ids_eq split: Option.bind_splits if_splits)
  with nm s' show ?thesis by auto
qed

lemma create_junctions_structure:
  "foldM (create_junction num_params) js s = Some s' \<Longrightarrow>
   distinct (map name (blocks (model s))) \<Longrightarrow>
   \<exists>bs. blocks (model s') = blocks (model s) @ bs \<and> length bs = length js \<and>
        param_counter s \<le> param_counter s' \<and>
        distinct (map name (blocks (model s'))) \<and>
        (\<forall>i<length js. get_string (js ! i) ''junction_name'' = Some (name (bs ! i)) \<and>
           (\<forall>p\<in>set (global_param_ids (bs ! i)). param_counter s \<le> p \<and> p < param_counter s'))"
proof (induction js arbitrary: s)
  case Nil
  then show ?case by simp
next
  case (Cons j js)
  from Cons.prems(1) obtain s1 where s1: "create_junction num_params j s = Some s1"
    and rest: "foldM (create_junction num_params) js s1 = Some s'"
    by (auto split: Option.bind_splits)
  from create_junction_named [OF s1] obtain b where
    b: "blocks (model s1) = blocks (model s) @ [b]"
    and nm: "get_string j ''junction_name'' = Some (name b)"
    and fresh: "name b \<notin> set (map name (blocks (model s)))"
    and ids: "\<forall>p\<in>set (global_param_ids b). param_counter s \<le> p \<and> p < param_counter s1"
    and pc: "param_counter s \<le> param_counter s1"
    by blast
  have d1: "distinct (map name (blocks (model s1)))"
    using b fresh Cons.prems(2) by simp
  from Cons.IH [OF rest d1] obtain bs where
    bs: "blocks (model s') = blocks (model s1) @ bs" "length bs = length js"
      "param_counter s1 \<le> param_counter s'"
      "distinct (map name (blocks (model s')))"
    and each: "\<forall>i<length js. get_string (js ! i) ''junction_name'' = Some (name (bs ! i)) \<and>
           (\<forall>p\<in>set (global_param_ids (bs ! i)). param_counter s1 \<le> p \<and> p < param_counter s')"
    by blast
  have "get_string ((j # js) ! i) ''junction_name'' = Some (name ((b # bs) ! i)) \<and>
           (\<forall>p\<in>set (global_param_ids ((b # bs) ! i)). param_counter s \<le> p \<and> p < param_counter s')"
    if "i < length (j # js)" for i
  proof (cases i)
    case 0
    have "param_counter s \<le> p \<and> p < param_counter s'" if "p \<in> set (global_param_ids b)" for p
    proof -
      from ids that have "param_counter s \<le> p" "p < param_counter s1" by blast+
      with bs(3) show ?thesis by linarith
    qed
    with 0 nm show ?thesis by simp
  next
    case (Suc i')
    with that have i': "i' < length js" by simp
    have "param_counter s \<le> p \<and> p < param_counter s'" if "p \<in> set (global_param_ids (bs ! i'))" for p
    proof -
      from each i' that have "param_counter s1 \<le> p" "p < param_counter s'" by blast+
      with pc show ?thesis by linarith
    qed
    with Suc each i' show ?thesis by simp
  qed
  with b bs pc show ?case
    by (intro exI [of _ "b # bs"]) auto
qed

lemma block_index_distinct:
  "distinct (map name bs) \<Longrightarrow> k < length bs \<Longrightarrow> block_index bs (name (bs ! k)) = Some k"
proof (induction bs arbitrary: k)
  case Nil
  then show ?case by simp
next
  case (Cons b bs)
  show ?case
  proof (cases k)
    case 0
    then show ?thesis by simp
  next
    case (Suc k')
    with Cons.prems(2) have k': "k' < length bs" by simp
    then have "name (bs ! k') \<in> set (map name bs)" by simp
    moreover from Cons.prems(1) have "name b \<notin> set (map name bs)" by simp
    ultimately have "name (bs ! k') \<noteq> name b" by metis
    with Suc k' Cons.IH [of k'] Cons.prems(1) show ?thesis by simp
  qed
qed

lemma get_block_distinct:
  "distinct (map name (blocks m)) \<Longrightarrow> k < length (blocks m) \<Longrightarrow>
   get_block m (name (blocks m ! k)) = Some (blocks m ! k)"
  by (simp add: get_block_def block_index_distinct vec_at_def)


lemma set_param_Some:
  "set_param b t x a = Some a' \<Longrightarrow>
   t < length (global_param_ids b) \<and> global_param_ids b ! t < length a \<and>
   a' = a[global_param_ids b ! t := x]"
  by (auto simp: set_param_def vec_at_def vec_put_def split: Option.bind_splits if_splits)

lemma seeded_cong:
  "seeded num_params v a base \<Longrightarrow> 3 \<le> num_params \<Longrightarrow>
   \<forall>p<base + num_params. a' ! p = a ! p \<Longrightarrow> seeded num_params v a' base"
  by (auto simp: seeded_def split: option.splits if_splits)

lemma init_vessel_seeded:
  assumes "init_vessel num_params v s = Some s'"
    and "get_string v ''vessel_name'' = Some nm"
    and "get_block (model s) nm = Some block"
    and "global_param_ids block = [base..<base + num_params]"
  shows "model s' = model s \<and> param_counter s' = param_counter s \<and>
         length (alpha s') = length (alpha s) \<and> 3 \<le> num_params \<and>
         seeded num_params v (alpha s') base \<and>
         (\<forall>p. p < base \<or> base + num_params \<le> p \<longrightarrow> alpha s' ! p = alpha s ! p)"
proof -
  from assms(1-3) obtain vals r c l a0 a1 a2 a3 where
    vals: "obj_find v ''zero_d_element_values'' = Some vals"
    and r: "value_or vals ''R_poiseuille'' 0 = Some r" "set_param block 0 r (alpha s) = Some a0"
    and c: "value_or vals ''C'' 0 = Some c" "set_param block 1 c a0 = Some a1"
    and l: "value_or vals ''L'' 0 = Some l" "set_param block 2 l a1 = Some a2"
    and ste: "(if num_params > 3 then do {
              ste \<leftarrow> value_or vals ''stenosis_coefficient'' 0;
              set_param block 3 ste a2 }
            else Some a2) = Some a3"
    and s': "s' = s\<lparr>alpha := a3\<rparr>"
    unfolding init_vessel_def get_string_def
    by (auto simp: bind_eq_Some_conv)
  from set_param_Some [OF r(2)] set_param_Some [OF c(2)] set_param_Some [OF l(2)] assms(4)
  have np: "3 \<le> num_params"
    and a0: "a0 = (alpha s)[base := r]" "base < length (alpha s)"
    and a1: "a1 = a0[base + 1 := c]" "base + 1 < length (alpha s)"
    and a2: "a2 = a1[base + 2 := l]" "base + 2 < length (alpha s)"
    by auto
  show ?thesis
  proof (cases "3 < num_params")
    case False
    with ste have "a3 = a2" by simp
    with False np a0 a1 a2 vals r c l s' show ?thesis
      by (auto simp: seeded_def)
  next
    case True
    with ste obtain x where x: "value_or vals ''stenosis_coefficient'' 0 = Some x"
      "set_param block 3 x a2 = Some a3"
      by (auto simp: bind_eq_Some_conv)
    from set_param_Some [OF x(2)] assms(4) True a0 a1 a2
    have "a3 = a2[base + 3 := x]" "base + 3 < length (alpha s)"
      by auto
    with True np a0 a1 a2 vals r c l x s' show ?thesis
      by (auto simp: seeded_def)
  qed
qed

lemma init_vessels_seeded:
  "foldM (init_vessel num_params) vs s = Some s' \<Longrightarrow>
   \<forall>i<length vs. \<exists>nm block. get_string (vs ! i) ''vessel_name'' = Some nm \<and>
      get_block (model s) nm = Some block \<and>
      global_param_ids block = [(k + i) * num_params..<(k + i) * num_params + num_params] \<Longrightarrow>
   model s' = model s \<and> param_counter s' = param_counter s \<and>
   length (alpha s') = length (alpha s) \<and> (vs \<noteq> [] \<longrightarrow> 3 \<le> num_params) \<and>
   (\<forall>i<length vs. seeded num_params (vs ! i) (alpha s') ((k + i) * num_params)) \<and>
   (\<forall>p. p < k * num_params \<or> (k + length vs) * num_params \<le> p \<longrightarrow> alpha s' ! p = alpha s ! p)"
proof (induction vs arbitrary: k s)
  case Nil
  then show ?case by simp
next
  case (Cons v vs)
  from Cons.prems(1) obtain s1 where s1: "init_vessel num_params v s = Some s1"
    and rest: "foldM (init_vessel num_params) vs s1 = Some s'"
    by (auto split: Option.bind_splits)
  from Cons.prems(2) [rule_format, of 0] obtain nm block where
    "get_string v ''vessel_name'' = Some nm" "get_block (model s) nm = Some block"
    "global_param_ids block = [k * num_params..<k * num_params + num_params]"
    by auto
  from init_vessel_seeded [OF s1 this]
  have m1: "model s1 = model s" and pc1: "param_counter s1 = param_counter s"
    and len1: "length (alpha s1) = length (alpha s)" and np: "3 \<le> num_params"
    and seed1: "seeded num_params v (alpha s1) (k * num_params)"
    and same1: "\<forall>p. p < k * num_params \<or> k * num_params + num_params \<le> p \<longrightarrow> alpha s1 ! p = alpha s ! p"
    by auto
  have pre: "\<forall>i<length vs. \<exists>nm block. get_string (vs ! i) ''vessel_name'' = Some nm \<and>
      get_block (model s1) nm = Some block \<and>
      global_param_ids block = [(Suc k + i) * num_params..<(Suc k + i) * num_params + num_params]"
  proof (intro allI impI)
    fix i assume "i < length vs"
    with Cons.prems(2) [rule_format, of "Suc i"] m1
    show "\<exists>nm block. get_string (vs ! i) ''vessel_name'' = Some nm \<and>
      get_block (model s1) nm = Some block \<and>
      global_param_ids block = [(Suc k + i) * num_params..<(Suc k + i) * num_params + num_params]"
      by simp
  qed
  from Cons.IH [OF rest pre]
  have m2: "model s' = model s1" and pc2: "param_counter s' = param_counter s1"
    and len2: "length (alpha s') = length (alpha s1)"
    and seed2: "\<forall>i<length vs. seeded num_params (vs ! i) (alpha s') ((Suc k + i) * num_params)"
    and same2: "\<forall>p. p < Suc k * num_params \<or> (Suc k + length vs) * num_params \<le> p
                  \<longrightarrow> alpha s' ! p = alpha s1 ! p"
    by auto
  have first: "seeded num_params v (alpha s') (k * num_params)"
    by (rule seeded_cong [OF seed1 np]) (use same2 in auto)
  have seeds: "seeded num_params ((v # vs) ! i) (alpha s') ((k + i) * num_params)"
    if "i < length (v # vs)" for i
  proof (cases i)
    case 0
    with first show ?thesis by simp
  next
    case (Suc i')
    with that seed2 show ?thesis by simp
  qed
  have same: "alpha s' ! p = alpha s ! p"
    if "p < k * num_params \<or> (k + length (v # vs)) * num_params \<le> p" for p
  proof -
    from that have "p < Suc k * num_params \<or> (Suc k + length vs) * num_params \<le> p"
      by auto
    with same2 have "alpha s' ! p = alpha s1 ! p" by blast
    moreover from that have "p < k * num_params \<or> k * num_params + num_params \<le> p"
      by (auto simp: algebra_simps)
    with same1 have "alpha s1 ! p = alpha s ! p" by blast
    ultimately show ?thesis by simp
  qed
  from m1 m2 pc1 pc2 len1 len2 seeds same np show ?case by auto
qed

lemma zeroed_within_refl: "zeroed_within S a a"
  by (simp add: zeroed_within_def)

lemma zeroed_within_trans:
  "zeroed_within S a a1 \<Longrightarrow> zeroed_within S a1 a2 \<Longrightarrow> zeroed_within S a a2"
  unfolding zeroed_within_def by metis

lemma zeroed_within_mono: "zeroed_within S a a' \<Longrightarrow> S \<subseteq> T \<Longrightarrow> zeroed_within T a a'"
  unfolding zeroed_within_def by blast

lemma set_param_zero:
  "set_param b t 0 a = Some a' \<Longrightarrow> zeroed_within (set (global_param_ids b)) a a'"
proof -
  assume "set_param b t 0 a = Some a'"
  from set_param_Some [OF this] have t: "t < length (global_param_ids b)"
    and a': "a' = a[global_param_ids b ! t := 0]" "global_param_ids b ! t < length a"
    by auto
  from t have "global_param_ids b ! t \<in> set (global_param_ids b)" by simp
  with a' show ?thesis
    by (auto simp: zeroed_within_def nth_list_update)
qed

lemma init_outlet_zero:
  assumes "init_outlet num_params b n i a = Some a'"
  shows "zeroed_within (set (global_param_ids b)) a a'"
proof -
  from assms obtain a0 a1 a2 where "set_param b i 0 a = Some a0"
    "set_param b (i + n) 0 a0 = Some a1" "set_param b (i + 2 * n) 0 a1 = Some a2"
    "(if num_params > 3 then set_param b (i + 3 * n) 0 a2 else Some a2) = Some a'"
    unfolding init_outlet_def by (auto simp: bind_eq_Some_conv)
  then have "zeroed_within (set (global_param_ids b)) a a0"
    "zeroed_within (set (global_param_ids b)) a0 a1"
    "zeroed_within (set (global_param_ids b)) a1 a2"
    "zeroed_within (set (global_param_ids b)) a2 a'"
    by (auto intro: set_param_zero zeroed_within_refl split: if_splits)
  then show ?thesis
    by (blast intro: zeroed_within_trans)
qed

lemma init_outlets_zero:
  "foldM (init_outlet num_params b n) is a = Some a' \<Longrightarrow>
   zeroed_within (set (global_param_ids b)) a a'"
proof (induction "is" arbitrary: a)
  case Nil
  then show ?case by (simp add: zeroed_within_refl)
next
  case (Cons i "is")
  then show ?case
    by (auto simp: bind_eq_Some_conv intro: zeroed_within_trans init_outlet_zero)
qed

lemma init_junction_zero:
  assumes "init_junction num_params j s = Some s'"
  shows "\<exists>nm block. get_string j ''junction_name'' = Some nm \<and>
           get_block (model s) nm = Some block \<and>
           model s' = model s \<and> param_counter s' = param_counter s \<and>
           zeroed_within (set (global_param_ids block)) (alpha s) (alpha s')"
proof -
  from assms obtain nm block where nm: "get_string j ''junction_name'' = Some nm"
    and block: "get_block (model s) nm = Some block"
    and s': "(if length (outlet_nodes block) < 2 then Some s
      else do {
        a \<leftarrow> foldM (init_outlet num_params block (length (outlet_nodes block)))
               [0..<length (outlet_nodes block)] (alpha s);
        Some (s\<lparr>alpha := a\<rparr>) }) = Some s'"
    unfolding init_junction_def get_string_def Let_def
    by (auto simp: bind_eq_Some_conv)
  from s' have "model s' = model s \<and> param_counter s' = param_counter s \<and>
           zeroed_within (set (global_param_ids block)) (alpha s) (alpha s')"
    by (auto simp: bind_eq_Some_conv zeroed_within_refl dest: init_outlets_zero split: if_splits)
  with nm block show ?thesis by blast
qed

lemma init_junctions_zero:
  "foldM (init_junction num_params) js s = Some s' \<Longrightarrow>
   \<forall>i<length js. \<forall>nm block. get_string (js ! i) ''junction_name'' = Some nm \<longrightarrow>
      get_block (model s) nm = Some block \<longrightarrow> set (global_param_ids block) \<subseteq> S \<Longrightarrow>
   model s' = model s \<and> param_counter s' = param_counter s \<and>
   zeroed_within S (alpha s) (alpha s')"
proof (induction js arbitrary: s)
  case Nil
  then show ?case by (simp add: zeroed_within_refl)
next
  case (Cons j js)
  from Cons.prems(1) obtain s1 where s1: "init_junction num_params j s = Some s1"
    and rest: "foldM (init_junction num_params) js s1 = Some s'"
    by (auto split: Option.bind_splits)
  from init_junction_zero [OF s1] obtain nm block where
    nm: "get_string j ''junction_name'' = Some nm" "get_block (model s) nm = Some block"
    and m1: "model s1 = model s" "param_counter s1 = param_counter s"
    and z1: "zeroed_within (set (global_param_ids block)) (alpha s) (alpha s1)"
    by blast
  from Cons.prems(2) [rule_format, of 0 nm block] nm have "set (global_param_ids block) \<subseteq> S"
    by simp
  with z1 have z1': "zeroed_within S (alpha s) (alpha s1)"
    by (rule zeroed_within_mono)
  have pre: "\<forall>i<length js. \<forall>nm block. get_string (js ! i) ''junction_name'' = Some nm \<longrightarrow>
      get_block (model s1) nm = Some block \<longrightarrow> set (global_param_ids block) \<subseteq> S"
  proof (intro allI impI)
    fix i nm block
    assume "i < length js" "get_string (js ! i) ''junction_name'' = Some nm"
      "get_block (model s1) nm = Some block"
    with Cons.prems(2) [rule_format, of "Suc i" nm block] m1
    show "set (global_param_ids block) \<subseteq> S" by simp
  qed
  from Cons.IH [OF rest pre] m1 z1' show ?case
    by (auto intro: zeroed_within_trans)
qed


text \<open>
  Claim C5, as amended. For the variables of \<^verbatim>\<open>main\<close> at line 166, whose blocks have
  the names and the parameter ids that the vessel and junction loops gave them:
  the initial \<open>alpha\<close> has length \<^verbatim>\<open>param_counter\<close>; the \<open>i\<close>-th vessel owns the ids
  \<open>i * num_params, \<dots>\<close> and its entries hold its warm-start resistance,
  capacitance and inductance, and its stenosis coefficient when there are more than
  three parameters per vessel; every entry after those of the vessels, that is every
  parameter of a junction, is 0. The capacitance is seeded whatever
  \<^verbatim>\<open>set_capacitance_to_zero\<close> says: the option is not read here.
\<close>

theorem initial_alpha:
  assumes vessels: "obj_find output_config ''vessels'' = Some (JArray vessels)"
    and junctions: "obj_find output_config ''junctions'' = Some (JArray junctions)"
    and s1: "create_vessels num_params vessels initial_locals = Some s1"
    and s2: "create_junctions num_params junctions s1 = Some s2"
    and names: "map name (blocks (model s)) = map name (blocks (model s2))"
    and ids: "map global_param_ids (blocks (model s)) = map global_param_ids (blocks (model s2))"
    and pc: "param_counter s = param_counter s2"
    and init: "init_alpha num_params output_config s = Some s'"
  shows "length (alpha s') = param_counter s \<and>
    (\<forall>i<length vessels.
       global_param_ids (blocks (model s) ! i) = [i * num_params..<i * num_params + num_params] \<and>
       seeded num_params (vessels ! i) (alpha s') (i * num_params)) \<and>
    (\<forall>p. length vessels * num_params \<le> p \<and> p < param_counter s \<longrightarrow> alpha s' ! p = 0)"
proof -
  let ?nv = "length vessels" and ?np = num_params
  have "param_counter (initial_locals :: 'a locals) = length (blocks (model (initial_locals :: 'a locals))) * ?np"
    "distinct (map name (blocks (model (initial_locals :: 'a locals))))"
    by (simp_all add: initial_locals_def empty_model_def)
  from create_vessels_structure [OF s1 [unfolded create_vessels_def] this] obtain vbs where
    vbs: "blocks (model s1) = vbs" "length vbs = ?nv" "param_counter s1 = ?nv * ?np"
      "distinct (map name (blocks (model s1)))"
    and vs: "\<forall>i<?nv. get_string (vessels ! i) ''vessel_name'' = Some (name (vbs ! i)) \<and>
           global_param_ids (vbs ! i) = [i * ?np..<i * ?np + ?np]"
    by (auto simp: initial_locals_def empty_model_def)
  from create_junctions_structure [OF s2 [unfolded create_junctions_def] vbs(4)] obtain jbs where
    jbs: "blocks (model s2) = vbs @ jbs" "length jbs = length junctions"
      "distinct (map name (blocks (model s2)))"
    and js: "\<forall>i<length junctions. get_string (junctions ! i) ''junction_name'' = Some (name (jbs ! i)) \<and>
           (\<forall>p\<in>set (global_param_ids (jbs ! i)). ?nv * ?np \<le> p \<and> p < param_counter s2)"
    using vbs by auto
  have len: "length (blocks (model s)) = ?nv + length junctions"
    using names jbs vbs by (metis length_append length_map)
  have dist: "distinct (map name (blocks (model s)))"
    using names jbs(3) by simp
  have nm: "name (blocks (model s) ! k) = name ((vbs @ jbs) ! k)"
    and pid: "global_param_ids (blocks (model s) ! k) = global_param_ids ((vbs @ jbs) ! k)"
    if "k < ?nv + length junctions" for k
  proof -
    from that len have k: "k < length (blocks (model s))" "k < length (blocks (model s2))"
      using jbs vbs by auto
    from k have "name (blocks (model s) ! k) = map name (blocks (model s)) ! k" by simp
    also have "\<dots> = name (blocks (model s2) ! k)" using names k by simp
    finally show "name (blocks (model s) ! k) = name ((vbs @ jbs) ! k)" using jbs by simp
    from k have "global_param_ids (blocks (model s) ! k) = map global_param_ids (blocks (model s)) ! k"
      by simp
    also have "\<dots> = global_param_ids (blocks (model s2) ! k)" using ids k by simp
    finally show "global_param_ids (blocks (model s) ! k) = global_param_ids ((vbs @ jbs) ! k)"
      using jbs by simp
  qed
  have found: "get_block (model s) (name ((vbs @ jbs) ! k)) = Some (blocks (model s) ! k)"
    if "k < ?nv + length junctions" for k
    using get_block_distinct [OF dist, of k] that len nm [OF that] by simp
  from init vessels junctions obtain sA where
    sA: "foldM (init_vessel ?np) vessels (s\<lparr>alpha := replicate (param_counter s) 0\<rparr>) = Some sA"
    and s': "foldM (init_junction ?np) junctions sA = Some s'"
    unfolding init_alpha_def by (auto simp: bind_eq_Some_conv)
  let ?s0 = "s\<lparr>alpha := replicate (param_counter s) 0\<rparr>"
  have pre: "\<forall>i<?nv. \<exists>nm block. get_string (vessels ! i) ''vessel_name'' = Some nm \<and>
      get_block (model ?s0) nm = Some block \<and>
      global_param_ids block = [(0 + i) * ?np..<(0 + i) * ?np + ?np]"
  proof (intro allI impI)
    fix i assume i: "i < ?nv"
    then have k: "i < ?nv + length junctions" by simp
    from i vbs have nth: "(vbs @ jbs) ! i = vbs ! i" by (simp add: nth_append)
    from found [OF k] pid [OF k] vs i nth
    show "\<exists>nm block. get_string (vessels ! i) ''vessel_name'' = Some nm \<and>
      get_block (model ?s0) nm = Some block \<and>
      global_param_ids block = [(0 + i) * ?np..<(0 + i) * ?np + ?np]"
      by auto
  qed
  from init_vessels_seeded [OF sA pre]
  have mA: "model sA = model s" and pcA: "param_counter sA = param_counter s"
    and lenA: "length (alpha sA) = param_counter s"
    and np: "vessels \<noteq> [] \<longrightarrow> 3 \<le> ?np"
    and seedA: "\<forall>i<?nv. seeded ?np (vessels ! i) (alpha sA) (i * ?np)"
    and restA: "\<forall>p. ?nv * ?np \<le> p \<longrightarrow> alpha sA ! p = replicate (param_counter s) 0 ! p"
    by auto
  have preJ: "\<forall>i<length junctions. \<forall>nm block. get_string (junctions ! i) ''junction_name'' = Some nm \<longrightarrow>
      get_block (model sA) nm = Some block \<longrightarrow> set (global_param_ids block) \<subseteq> {p. ?nv * ?np \<le> p}"
  proof (intro allI impI)
    fix i nm block
    assume i: "i < length junctions" and g: "get_string (junctions ! i) ''junction_name'' = Some nm"
      and b: "get_block (model sA) nm = Some block"
    from i have k: "?nv + i < ?nv + length junctions" by simp
    from vbs have nth: "(vbs @ jbs) ! (?nv + i) = jbs ! i" by (simp add: nth_append)
    from js i g have "nm = name (jbs ! i)" by auto
    with found [OF k] nth b mA have "block = blocks (model s) ! (?nv + i)" by simp
    with pid [OF k] nth have "global_param_ids block = global_param_ids (jbs ! i)" by simp
    with js i show "set (global_param_ids block) \<subseteq> {p. ?nv * ?np \<le> p}" by auto
  qed
  from init_junctions_zero [OF s' preJ]
  have z: "zeroed_within {p. ?nv * ?np \<le> p} (alpha sA) (alpha s')"
    by simp
  then have len': "length (alpha s') = param_counter s"
    and low: "\<forall>p<?nv * ?np. alpha s' ! p = alpha sA ! p"
    and high: "\<forall>p. alpha s' ! p = alpha sA ! p \<or> alpha s' ! p = 0"
    using lenA by (auto simp: zeroed_within_def)
  have "global_param_ids (blocks (model s) ! i) = [i * ?np..<i * ?np + ?np] \<and>
       seeded ?np (vessels ! i) (alpha s') (i * ?np)" if i: "i < ?nv" for i
  proof -
    from i have k: "i < ?nv + length junctions" by simp
    from i vbs have nth: "(vbs @ jbs) ! i = vbs ! i" by (simp add: nth_append)
    from i have "i * ?np + ?np \<le> ?nv * ?np"
      by (metis Suc_leI mult_Suc mult_le_mono1 add.commute)
    with low have same: "\<forall>p<i * ?np + ?np. alpha s' ! p = alpha sA ! p" by simp
    from i np have "3 \<le> ?np" by auto
    from seeded_cong [OF _ this same] seedA i
    have "seeded ?np (vessels ! i) (alpha s') (i * ?np)" by blast
    with pid [OF k] nth vs i show ?thesis by simp
  qed
  moreover have "alpha s' ! p = 0" if "?nv * ?np \<le> p \<and> p < param_counter s" for p
    using that restA high by (metis nth_replicate)
  ultimately show ?thesis
    using len' by blast
qed

lemma init_bifurcation:
  "init_alpha 3 bifurcation_config bifurcation_graph = Some bifurcation_initial"
  by (simp add: run_defs graph_defs bifurcation_graph_def bifurcation_initial_def
        cong: bind_weak_cong)

theorem initial_alpha_witness:
  "init_alpha 3 bifurcation_config bifurcation_graph = Some bifurcation_initial \<and>
   length (alpha bifurcation_initial) = 18 \<and>
   seeded 3 (bifurcation_vessels ! 1) (alpha bifurcation_initial) 3 \<and>
   alpha bifurcation_initial ! 14 = 0"
proof -
  have v: "obj_find bifurcation_config ''vessels'' = Some (JArray bifurcation_vessels)"
    and j: "obj_find bifurcation_config ''junctions'' = Some (JArray bifurcation_junctions)"
    by (simp_all add: bifurcation_config_def)
  have same: "map name (blocks (model bifurcation_graph))
      = map name (blocks (model bifurcation_junctions_created))"
    "map global_param_ids (blocks (model bifurcation_graph))
      = map global_param_ids (blocks (model bifurcation_junctions_created))"
    "param_counter bifurcation_graph = param_counter bifurcation_junctions_created"
    by (simp_all add: bifurcation_junctions_created_def bifurcation_graph_def)
  from initial_alpha [OF v j vessel_loop_bifurcation junction_loop_bifurcation same
      init_bifurcation]
  have len: "length (alpha bifurcation_initial) = param_counter bifurcation_graph"
    and seeds: "\<forall>i<length bifurcation_vessels.
       seeded 3 (bifurcation_vessels ! i) (alpha bifurcation_initial) (i * 3)"
    and zeros: "\<forall>p. length bifurcation_vessels * 3 \<le> p \<and> p < param_counter bifurcation_graph
       \<longrightarrow> alpha bifurcation_initial ! p = 0"
    by auto
  from len have "length (alpha bifurcation_initial) = 18"
    by (simp add: bifurcation_graph_def)
  moreover from seeds [rule_format, of 1]
  have "seeded 3 (bifurcation_vessels ! 1) (alpha bifurcation_initial) 3"
    by (simp add: bifurcation_vessels_def)
  moreover from zeros [rule_format, of 14] have "alpha bifurcation_initial ! 14 = 0"
    by (simp add: bifurcation_vessels_def bifurcation_graph_def)
  ultimately show ?thesis
    using init_bifurcation by simp
qed

text \<open>
  Claim C5 as stated fails: \<open>single_vessel_config False True\<close> requests
  \<^verbatim>\<open>set_capacitance_to_zero\<close>, and the initial \<open>alpha\<close> still holds the warm-start
  capacitance 2 of the vessel at its parameter id 1.
\<close>

theorem capacitance_seeded_regardless:
  "read_options (single_vessel_config False True) = Some (False, True) \<and>
   (obj_find (vessel_doc 0 ''V0'') ''zero_d_element_values'' \<bind> (\<lambda>values. obj_find values ''C''))
     = Some (JFloat 2) \<and>
   prepare example_external (single_vessel_config False True) = Some (3, True, prepared) \<and>
   map global_param_ids (blocks (model prepared)) = [[0, 1, 2]] \<and>
   alpha prepared = [1, 2, 3]"
  by (simp add: run_defs prepared_def)

subsection \<open>The output document\<close>

lemma obj_set_find:
  "obj_set j k v = Some j' \<Longrightarrow> obj_find j' k' = (if k' = k then Some v else obj_find j k')"
  by (cases j) (auto simp: update_conv')

lemma obj_erase_find:
  "obj_erase j k = Some j' \<Longrightarrow> obj_find j' k' = (if k' = k then None else obj_find j k')"
  by (cases j) (auto simp: delete_conv')




lemma write_vessel_Some:
  assumes "write_vessel num_params zero_capacitance s v = Some v'"
  shows "\<exists>block values.
     (obj_find v ''vessel_name'' \<bind> as_string \<bind> get_block (model s)) = Some block \<and>
     vessel_element_values num_params zero_capacitance block (alpha s) = Some values \<and>
     (\<forall>k. obj_find v' k = (if k = ''zero_d_element_values'' then Some values else obj_find v k))"
  using assms
  by (auto simp: write_vessel_def obj_set_find split: Option.bind_splits)

lemma write_junction_Some:
  assumes "write_junction num_params zero_capacitance s j = Some j'"
  shows "\<exists>block.
     (obj_find j ''junction_name'' \<bind> as_string \<bind> get_block (model s)) = Some block \<and>
     (if length (outlet_nodes block) < 2 then j' = j
      else \<exists>values.
        junction_element_values num_params zero_capacitance block (length (outlet_nodes block)) (alpha s)
          = Some values \<and>
        (\<forall>k. obj_find j' k =
           (if k = ''junction_values'' then Some values
            else if k = ''junction_type'' then Some (JString ''BloodVesselJunction'')
            else obj_find j k)))"
  using assms
  by (auto simp: write_junction_def obj_set_find Let_def split: Option.bind_splits if_splits)

lemma write_output_Some:
  assumes "write_output num_params zero_capacitance output_config s = Some out"
  shows "\<exists>vessels junctions vessels' junctions'.
     obj_find output_config ''vessels'' = Some (JArray vessels) \<and>
     obj_find output_config ''junctions'' = Some (JArray junctions) \<and>
     mapM (write_vessel num_params zero_capacitance s) vessels = Some vessels' \<and>
     mapM (write_junction num_params zero_capacitance s) junctions = Some junctions' \<and>
     (\<forall>k. obj_find out k =
        (if k = ''calibration_parameters'' \<or> k = ''dy'' \<or> k = ''y'' then None
         else if k = ''junctions'' then Some (JArray junctions')
         else if k = ''vessels'' then Some (JArray vessels')
         else obj_find output_config k))"
proof -
  from assms obtain v vessels vessels' c1 j junctions junctions' c2 c3 c4 where
    v: "obj_find output_config ''vessels'' = Some v" "as_array v = Some vessels"
    and vs: "mapM (write_vessel num_params zero_capacitance s) vessels = Some vessels'"
    and c1: "obj_set output_config ''vessels'' (JArray vessels') = Some c1"
    and j: "obj_find c1 ''junctions'' = Some j" "as_array j = Some junctions"
    and js: "mapM (write_junction num_params zero_capacitance s) junctions = Some junctions'"
    and c2: "obj_set c1 ''junctions'' (JArray junctions') = Some c2"
    and c3: "obj_erase c2 ''y'' = Some c3" and c4: "obj_erase c3 ''dy'' = Some c4"
    and out: "obj_erase c4 ''calibration_parameters'' = Some out"
    by (auto simp: write_output_def split: Option.bind_splits)
  from v have v': "obj_find output_config ''vessels'' = Some (JArray vessels)"
    by (cases v) auto
  from j have "obj_find c1 ''junctions'' = Some (JArray junctions)"
    by (cases j) auto
  with obj_set_find [OF c1, of "''junctions''"]
  have j': "obj_find output_config ''junctions'' = Some (JArray junctions)"
    by simp
  have "obj_find out k =
        (if k = ''calibration_parameters'' \<or> k = ''dy'' \<or> k = ''y'' then None
         else if k = ''junctions'' then Some (JArray junctions')
         else if k = ''vessels'' then Some (JArray vessels')
         else obj_find output_config k)" for k
    by (simp add: obj_erase_find [OF out] obj_erase_find [OF c4] obj_erase_find [OF c3]
          obj_set_find [OF c2] obj_set_find [OF c1])
  with v' j' vs js show ?thesis by blast
qed




text \<open>
  Claim C9, as amended. The output document has no member \<^verbatim>\<open>y\<close>, \<^verbatim>\<open>dy\<close> or
  \<^verbatim>\<open>calibration_parameters\<close>; its \<^verbatim>\<open>vessels\<close> and \<^verbatim>\<open>junctions\<close> are arrays as long as
  those of the input; every other member is that of the input. A vessel differs
  from the input vessel in \<^verbatim>\<open>zero_d_element_values\<close> only, which holds the values read
  from \<open>alpha\<close>. A junction whose block has fewer than two outlet nodes is the input
  junction; any other differs from it in \<^verbatim>\<open>junction_values\<close>, which holds the values
  read from \<open>alpha\<close>, and in \<^verbatim>\<open>junction_type\<close>, which is \<^verbatim>\<open>"BloodVesselJunction"\<close>.
\<close>

theorem output_document:
  assumes "write_output num_params zero_capacitance output_config s = Some out"
  shows "\<exists>vessels junctions vessels' junctions'.
     obj_find output_config ''vessels'' = Some (JArray vessels) \<and>
     obj_find output_config ''junctions'' = Some (JArray junctions) \<and>
     length vessels' = length vessels \<and> length junctions' = length junctions \<and>
     (\<forall>k. obj_find out k =
        (if k = ''calibration_parameters'' \<or> k = ''dy'' \<or> k = ''y'' then None
         else if k = ''junctions'' then Some (JArray junctions')
         else if k = ''vessels'' then Some (JArray vessels')
         else obj_find output_config k)) \<and>
     (\<forall>i<length vessels. \<exists>block values.
        (obj_find (vessels ! i) ''vessel_name'' \<bind> as_string \<bind> get_block (model s)) = Some block \<and>
        vessel_element_values num_params zero_capacitance block (alpha s) = Some values \<and>
        (\<forall>k. obj_find (vessels' ! i) k =
           (if k = ''zero_d_element_values'' then Some values else obj_find (vessels ! i) k))) \<and>
     (\<forall>i<length junctions. \<exists>block.
        (obj_find (junctions ! i) ''junction_name'' \<bind> as_string \<bind> get_block (model s)) = Some block \<and>
        (if length (outlet_nodes block) < 2 then junctions' ! i = junctions ! i
         else \<exists>values.
           junction_element_values num_params zero_capacitance block (length (outlet_nodes block)) (alpha s)
             = Some values \<and>
           (\<forall>k. obj_find (junctions' ! i) k =
              (if k = ''junction_values'' then Some values
               else if k = ''junction_type'' then Some (JString ''BloodVesselJunction'')
               else obj_find (junctions ! i) k))))"
proof -
  from write_output_Some [OF assms] obtain vessels junctions vessels' junctions' where
    v: "obj_find output_config ''vessels'' = Some (JArray vessels)"
    and j: "obj_find output_config ''junctions'' = Some (JArray junctions)"
    and vs: "mapM (write_vessel num_params zero_capacitance s) vessels = Some vessels'"
    and js: "mapM (write_junction num_params zero_capacitance s) junctions = Some junctions'"
    and out: "\<forall>k. obj_find out k =
        (if k = ''calibration_parameters'' \<or> k = ''dy'' \<or> k = ''y'' then None
         else if k = ''junctions'' then Some (JArray junctions')
         else if k = ''vessels'' then Some (JArray vessels')
         else obj_find output_config k)"
    by blast
  have "\<forall>i<length vessels. \<exists>block values.
        (obj_find (vessels ! i) ''vessel_name'' \<bind> as_string \<bind> get_block (model s)) = Some block \<and>
        vessel_element_values num_params zero_capacitance block (alpha s) = Some values \<and>
        (\<forall>k. obj_find (vessels' ! i) k =
           (if k = ''zero_d_element_values'' then Some values else obj_find (vessels ! i) k))"
    using mapM_nth [OF vs] write_vessel_Some by blast
  moreover have "\<forall>i<length junctions. \<exists>block.
        (obj_find (junctions ! i) ''junction_name'' \<bind> as_string \<bind> get_block (model s)) = Some block \<and>
        (if length (outlet_nodes block) < 2 then junctions' ! i = junctions ! i
         else \<exists>values.
           junction_element_values num_params zero_capacitance block (length (outlet_nodes block)) (alpha s)
             = Some values \<and>
           (\<forall>k. obj_find (junctions' ! i) k =
              (if k = ''junction_values'' then Some values
               else if k = ''junction_type'' then Some (JString ''BloodVesselJunction'')
               else obj_find (junctions ! i) k)))"
    using mapM_nth [OF js] write_junction_Some by blast
  ultimately show ?thesis
    using v j out mapM_length [OF vs] mapM_length [OF js] by blast
qed

theorem output_document_witness:
  "write_output 3 True bifurcation_config bifurcation_estimated = Some bifurcation_output \<and>
   obj_find bifurcation_output ''y'' = None \<and>
   obj_find bifurcation_output ''dy'' = None \<and>
   obj_find bifurcation_output ''calibration_parameters'' = None"
proof -
  from output_document [OF write_bifurcation]
  have "\<forall>k. k = ''calibration_parameters'' \<or> k = ''dy'' \<or> k = ''y''
          \<longrightarrow> obj_find bifurcation_output k = None"
    by metis
  with write_bifurcation show ?thesis by simp
qed

text \<open>
  Claim C9 as stated fails: the input junction \<open>J0\<close> of \<open>bifurcation_config\<close> has
  two outlets and the \<^verbatim>\<open>junction_type\<close> \<^verbatim>\<open>"NORMAL_JUNCTION"\<close>; the output document has
  \<^verbatim>\<open>"BloodVesselJunction"\<close> there (line 342), a member that is neither
  \<^verbatim>\<open>junction_values\<close> nor one of the three removed keys.
\<close>

theorem junction_type_overwritten:
  "build_graph 3 bifurcation_config = Some bifurcation_graph \<and>
   (obj_find bifurcation_config ''junctions'' \<bind> as_array \<bind> (\<lambda>js. vec_at js 0)
      \<bind> (\<lambda>j. obj_find j ''junction_type'')) = Some (JString ''NORMAL_JUNCTION'') \<and>
   (write_output 3 True bifurcation_config bifurcation_estimated
      \<bind> (\<lambda>out. obj_find out ''junctions'') \<bind> as_array \<bind> (\<lambda>js. vec_at js 0)
      \<bind> (\<lambda>j. obj_find j ''junction_type'')) = Some (JString ''BloodVesselJunction'')"
  by (simp add: build_bifurcation write_bifurcation)
     (simp add: bifurcation_config_def bifurcation_junctions_def bifurcation_output_def vec_at_def)

subsection \<open>The number of parameters per vessel\<close>

text \<open>
  Claim C1, at the input \<open>single_vessel_config True False\<close>, whose option
  \<^verbatim>\<open>calibrate_stenosis_coefficient\<close> is true: \<^verbatim>\<open>num_params\<close> is 3, the vessel is
  registered with the three parameter ids 0, 1, 2, the parameter vector has length
  3 (the warm-start stenosis coefficient 4 is not read), and the emitted
  \<^verbatim>\<open>stenosis_coefficient\<close> is 0.
\<close>

theorem stenosis_option_shadowed:
  "read_options (single_vessel_config True False) = Some (True, False) \<and>
   num_params_of True = 3 \<and>
   map_option (\<lambda>s. (map global_param_ids (blocks (model s)), param_counter s))
     (build_graph (num_params_of True) (single_vessel_config True False) :: 32 word locals option)
     = Some ([[0, 1, 2]], 3) \<and>
   map_option alpha
     ((build_graph (num_params_of True) (single_vessel_config True False) :: 32 word locals option)
        \<bind> init_alpha (num_params_of True) (single_vessel_config True False))
     = Some [1, 2, 3] \<and>
   ((build_graph (num_params_of True) (single_vessel_config True False) :: 32 word locals option)
        \<bind> init_alpha (num_params_of True) (single_vessel_config True False)
        \<bind> write_output (num_params_of True) False (single_vessel_config True False)
        \<bind> (\<lambda>out. obj_find out ''vessels'')
        \<bind> as_array \<bind> (\<lambda>vs. vec_at vs 0)
        \<bind> (\<lambda>v. obj_find v ''zero_d_element_values''))
     = Some (JObject [(''R_poiseuille'', JFloat 1), (''C'', JFloat 2), (''L'', JFloat 3),
                      (''stenosis_coefficient'', JFloat 0)])"
  by (simp add: read_options_def single_vessel_config_def vessel_doc_def get_bool_def
        num_params_of_def build_graph_def create_vessels_def create_vessel_def
        create_junctions_def create_connections_def get_string_def get_int_def
        push_param_ids_eq add_block_def initial_locals_def empty_model_def
        read_boundary_conditions_def has_key_def map_insert_def upt_conv_Cons
        init_alpha_def init_vessel_def get_block_def vec_at_def vec_put_def set_param_def
        get_param_def write_output_def write_vessel_def vessel_element_values_def
        replicate_numeral)

end
